theory Spec2Isabelle
  imports Complex_Main
begin

section \<open>Invoice Creator: the line-item model of \<open>src/app/page.tsx\<close>\<close>

subsection \<open>Numbers and field values\<close>

text \<open>
  A JavaScript \<open>number\<close> is an IEEE 754 double: \<open>NaN\<close>, the two infinities, or a finite
  value, modelled by the rational it denotes. The results of arithmetic and of reading a
  numeric text are rounded to the nearest double, ties to even, and overflow to an
  infinity (\<open>round_double\<close> below). The sign of zero is not kept: both zeros are \<open>Num 0\<close>.
\<close>

datatype number = NaN | PosInf | NegInf | Num rat

text \<open>
  Rounding a rational to a double. A finite double is \<open>m * 2^e\<close> with \<open>|m| < 2^53\<close> and
  \<open>-1074 \<le> e \<le> 971\<close>. \<open>exponent_of 2045 a\<close> is the exponent of the unit in the last place
  for the magnitude \<open>a\<close>: the largest \<open>e\<close> in that range with \<open>2^(e+52) \<le> a\<close>, or \<open>-1074\<close> in
  the subnormal range. The magnitude is rounded to a multiple of \<open>2^e\<close>, a tie going to
  the even multiple; a result of \<open>2^1024\<close> or more is an infinity.
\<close>

definition round_half_even :: "rat \<Rightarrow> int" where
  "round_half_even q =
     (let f = \<lfloor>q\<rfloor>; d = q - of_int f
      in if d < 1 / 2 then f
         else if 1 / 2 < d then f + 1
         else if even f then f else f + 1)"

fun exponent_of :: "nat \<Rightarrow> rat \<Rightarrow> int" where
  "exponent_of 0 a = - 1074"
| "exponent_of (Suc k) a =
     (if 2 powi (int k - 1021) \<le> a then int k - 1073 else exponent_of k a)"

definition double_limit :: rat where
  "double_limit = 2 ^ 1024"

definition round_magnitude :: "rat \<Rightarrow> rat" where
  "round_magnitude a =
     (let e = exponent_of 2045 a
      in of_int (round_half_even (a / 2 powi e)) * 2 powi e)"

definition round_double :: "rat \<Rightarrow> number" where
  "round_double r =
     (let v = round_magnitude \<bar>r\<bar>
      in if double_limit \<le> v then (if r < 0 then NegInf else PosInf)
         else Num (if r < 0 then - v else v))"

text \<open>A rational that is a double: rounding leaves it as it is.\<close>

definition is_double :: "rat \<Rightarrow> bool" where
  "is_double r = (round_double r = Num r)"

text \<open>
  \<open>updateItem\<close> takes \<open>value: string | number\<close> and stores it under a computed key,
  so at run time every field of an item holds a string or a number, whatever the
  interface declares. The type erasure is the source's: the call type-checks for any
  pairing of key and value.
\<close>

datatype field_value = StringValue string | NumberValue number

text \<open>\<open>keyof InvoiceItem\<close>.\<close>

datatype item_key = Id | Description | Quantity | Price

text \<open>\<open>interface InvoiceItem\<close>; the field \<open>id\<close> is named \<open>item_id\<close> here.\<close>

record InvoiceItem =
  item_id :: field_value
  description :: field_value
  quantity :: field_value
  price :: field_value

text \<open>Property access \<open>item[field]\<close> and the spread \<open>{ ...item, [field]: value }\<close>.\<close>

fun get_field :: "item_key \<Rightarrow> InvoiceItem \<Rightarrow> field_value" where
  "get_field Id item = item_id item"
| "get_field Description item = description item"
| "get_field Quantity item = quantity item"
| "get_field Price item = price item"

fun set_field :: "item_key \<Rightarrow> field_value \<Rightarrow> InvoiceItem \<Rightarrow> InvoiceItem" where
  "set_field Id v item = item\<lparr>item_id := v\<rparr>"
| "set_field Description v item = item\<lparr>description := v\<rparr>"
| "set_field Quantity v item = item\<lparr>quantity := v\<rparr>"
| "set_field Price v item = item\<lparr>price := v\<rparr>"

subsection \<open>Decimal text of an integer\<close>

text \<open>
  \<open>Date.now().toString()\<close>: \<open>Date.now()\<close> is an integral number of milliseconds, and
  \<open>toString\<close> of an integer below \<open>10^21\<close> in magnitude is its decimal text.
\<close>

definition digit_char :: "nat \<Rightarrow> char" where
  "digit_char d = char_of (48 + d)"

fun digits :: "nat \<Rightarrow> string" where
  "digits n = (if n < 10 then [digit_char n] else digits (n div 10) @ [digit_char (n mod 10)])"

declare digits.simps [simp del]

definition toString_int :: "int \<Rightarrow> string" where
  "toString_int n = (if n < 0 then CHR ''-'' # digits (nat (- n)) else digits (nat n))"

subsection \<open>The operations on the item list\<close>

text \<open>
  \<open>items\<close> is a state cell of the component; each operation is modelled as the function
  from the current list to the list handed to \<open>setItems\<close> (the list itself when
  \<open>setItems\<close> is not called). \<open>addItem\<close> reads the clock, which is its argument \<open>now\<close>.
\<close>

definition addItem :: "int \<Rightarrow> InvoiceItem list \<Rightarrow> InvoiceItem list" where
  "addItem now items =
     items @ [\<lparr>item_id = StringValue (toString_int now),
               description = StringValue '''',
               quantity = NumberValue (Num 1),
               price = NumberValue (Num 0)\<rparr>]"

definition removeItem :: "string \<Rightarrow> InvoiceItem list \<Rightarrow> InvoiceItem list" where
  "removeItem i items =
     (if length items > 1 then filter (\<lambda>item. item_id item \<noteq> StringValue i) items
      else items)"

definition updateItem ::
  "string \<Rightarrow> item_key \<Rightarrow> field_value \<Rightarrow> InvoiceItem list \<Rightarrow> InvoiceItem list" where
  "updateItem i fld v items =
     map (\<lambda>item. if item_id item = StringValue i then set_field fld v item else item) items"

subsection \<open>Arithmetic and truthiness of numbers\<close>

fun jsadd :: "number \<Rightarrow> number \<Rightarrow> number" where
  "jsadd NaN _ = NaN"
| "jsadd _ NaN = NaN"
| "jsadd PosInf NegInf = NaN"
| "jsadd NegInf PosInf = NaN"
| "jsadd PosInf _ = PosInf"
| "jsadd _ PosInf = PosInf"
| "jsadd NegInf _ = NegInf"
| "jsadd _ NegInf = NegInf"
| "jsadd (Num a) (Num b) = round_double (a + b)"

definition signed_inf :: "bool \<Rightarrow> number" where
  "signed_inf positive = (if positive then PosInf else NegInf)"

fun jsmul :: "number \<Rightarrow> number \<Rightarrow> number" where
  "jsmul NaN _ = NaN"
| "jsmul _ NaN = NaN"
| "jsmul PosInf PosInf = PosInf"
| "jsmul PosInf NegInf = NegInf"
| "jsmul NegInf PosInf = NegInf"
| "jsmul NegInf NegInf = PosInf"
| "jsmul PosInf (Num b) = (if b = 0 then NaN else signed_inf (0 < b))"
| "jsmul NegInf (Num b) = (if b = 0 then NaN else signed_inf (b < 0))"
| "jsmul (Num a) PosInf = (if a = 0 then NaN else signed_inf (0 < a))"
| "jsmul (Num a) NegInf = (if a = 0 then NaN else signed_inf (a < 0))"
| "jsmul (Num a) (Num b) = round_double (a * b)"

fun negate :: "number \<Rightarrow> number" where
  "negate NaN = NaN"
| "negate PosInf = NegInf"
| "negate NegInf = PosInf"
| "negate (Num a) = Num (- a)"

text \<open>\<open>ToBoolean\<close> of a number, and \<open>a || b\<close> on numbers.\<close>

fun truthy :: "number \<Rightarrow> bool" where
  "truthy NaN = False"
| "truthy (Num a) = (a \<noteq> 0)"
| "truthy _ = True"

definition or_else :: "number \<Rightarrow> number \<Rightarrow> number" where
  "or_else a b = (if truthy a then a else b)"

subsection \<open>\<open>Number.parseInt\<close>, \<open>Number.parseFloat\<close> and \<open>ToNumber\<close>\<close>

text \<open>
  The platform's functions, written after their ECMAScript algorithms over strings of
  8-bit characters (the white space of that range: TAB, LF, VT, FF, CR, SP, NBSP). The
  mathematical value of the digits is rounded to a double, as the engines do for texts of
  any length.
\<close>

definition isWhiteSpace :: "char \<Rightarrow> bool" where
  "isWhiteSpace c = ((of_char c :: nat) \<in> {9, 10, 11, 12, 13, 32, 160})"

definition trimStart :: "string \<Rightarrow> string" where
  "trimStart s = dropWhile isWhiteSpace s"

definition trimString :: "string \<Rightarrow> string" where
  "trimString s = rev (dropWhile isWhiteSpace (rev (dropWhile isWhiteSpace s)))"

definition digitVal :: "char \<Rightarrow> nat option" where
  "digitVal c =
     (let n = (of_char c :: nat)
      in if 48 \<le> n \<and> n \<le> 57 then Some (n - 48)
         else if 97 \<le> n \<and> n \<le> 122 then Some (n - 87)
         else if 65 \<le> n \<and> n \<le> 90 then Some (n - 55)
         else None)"

definition radixDigit :: "nat \<Rightarrow> char \<Rightarrow> bool" where
  "radixDigit R c = (case digitVal c of Some d \<Rightarrow> d < R | None \<Rightarrow> False)"

definition isDecimalDigit :: "char \<Rightarrow> bool" where
  "isDecimalDigit c = radixDigit 10 c"

definition mathInt :: "nat \<Rightarrow> string \<Rightarrow> nat" where
  "mathInt R Z = foldl (\<lambda>acc c. acc * R + (case digitVal c of Some d \<Rightarrow> d | None \<Rightarrow> 0)) 0 Z"

text \<open>\<open>parseInt(string)\<close> with no radix argument: radix 10, or 16 after a \<open>0x\<close> prefix.\<close>

definition parseInt :: "string \<Rightarrow> number" where
  "parseInt inputString =
     (let S = trimStart inputString;
          sign = (if S \<noteq> [] \<and> hd S = CHR ''-'' then - 1 else (1::int));
          S1 = (if S \<noteq> [] \<and> (hd S = CHR ''+'' \<or> hd S = CHR ''-'') then tl S else S);
          hex = (take 2 S1 = ''0x'' \<or> take 2 S1 = ''0X'');
          R = (if hex then 16 else 10);
          S2 = (if hex then drop 2 S1 else S1);
          Z = takeWhile (radixDigit R) S2
      in if Z = [] then NaN else round_double (of_int (sign * int (mathInt R Z))))"

text \<open>
  The longest prefix that is a \<open>StrDecimalLiteral\<close>, with its value and the rest of the
  string; \<open>None\<close> when no prefix is one.
\<close>

definition exponentPart :: "string \<Rightarrow> int \<times> string" where
  "exponentPart s =
     (case s of
        [] \<Rightarrow> (0, s)
      | c # t \<Rightarrow>
          if c = CHR ''e'' \<or> c = CHR ''E'' then
            (let neg = (t \<noteq> [] \<and> hd t = CHR ''-'');
                 t1 = (if t \<noteq> [] \<and> (hd t = CHR ''+'' \<or> hd t = CHR ''-'') then tl t else t);
                 ds = takeWhile isDecimalDigit t1
             in if ds = [] then (0, s)
                else (if neg then - int (mathInt 10 ds) else int (mathInt 10 ds),
                      dropWhile isDecimalDigit t1))
          else (0, s))"

definition scale10 :: "rat \<Rightarrow> int \<Rightarrow> rat" where
  "scale10 m e = (if 0 \<le> e then m * 10 ^ nat e else m / 10 ^ nat (- e))"

definition unsignedDecimalLiteral :: "string \<Rightarrow> (number \<times> string) option" where
  "unsignedDecimalLiteral s =
     (if take 8 s = ''Infinity'' then Some (PosInf, drop 8 s)
      else
        (let ip = takeWhile isDecimalDigit s;
             r1 = dropWhile isDecimalDigit s;
             hasDot = (r1 \<noteq> [] \<and> hd r1 = CHR ''.'');
             fp = (if hasDot then takeWhile isDecimalDigit (tl r1) else []);
             r2 = (if hasDot then dropWhile isDecimalDigit (tl r1) else r1)
         in if ip = [] \<and> fp = [] then None
            else
              (let (e, r3) = exponentPart r2;
                   m = of_nat (mathInt 10 ip) + of_nat (mathInt 10 fp) / 10 ^ length fp
               in Some (round_double (scale10 m e), r3))))"

definition strDecimalLiteral :: "string \<Rightarrow> (number \<times> string) option" where
  "strDecimalLiteral s =
     (case s of
        [] \<Rightarrow> None
      | c # t \<Rightarrow>
          if c = CHR ''+'' then unsignedDecimalLiteral t
          else if c = CHR ''-'' then
            map_option (\<lambda>(v, r). (negate v, r)) (unsignedDecimalLiteral t)
          else unsignedDecimalLiteral s)"

definition parseFloat :: "string \<Rightarrow> number" where
  "parseFloat inputString =
     (case strDecimalLiteral (trimStart inputString) of
        None \<Rightarrow> NaN
      | Some (v, _) \<Rightarrow> v)"

text \<open>\<open>0x\<close>, \<open>0o\<close> and \<open>0b\<close> literals, which \<open>ToNumber\<close> accepts unsigned and whole.\<close>

definition nonDecimalLiteral :: "string \<Rightarrow> number option" where
  "nonDecimalLiteral s =
     (let p = take 2 s;
          ds = drop 2 s;
          R = (if p = ''0x'' \<or> p = ''0X'' then 16
               else if p = ''0o'' \<or> p = ''0O'' then 8
               else if p = ''0b'' \<or> p = ''0B'' then 2
               else 0)
      in if R \<noteq> 0 \<and> ds \<noteq> [] \<and> list_all (radixDigit R) ds
         then Some (round_double (of_nat (mathInt R ds)))
         else None)"

definition stringToNumber :: "string \<Rightarrow> number" where
  "stringToNumber s =
     (let t = trimString s
      in if t = [] then Num 0
         else case nonDecimalLiteral t of
                Some n \<Rightarrow> n
              | None \<Rightarrow>
                  (case strDecimalLiteral t of
                     Some (v, []) \<Rightarrow> v
                   | _ \<Rightarrow> NaN))"

fun toNumber :: "field_value \<Rightarrow> number" where
  "toNumber (StringValue s) = stringToNumber s"
| "toNumber (NumberValue n) = n"

subsection \<open>Derived totals\<close>

text \<open>The row total \<open>item.quantity * item.price\<close> and the \<open>reduce\<close> that sums them.\<close>

definition lineTotal :: "InvoiceItem \<Rightarrow> number" where
  "lineTotal item = jsmul (toNumber (quantity item)) (toNumber (price item))"

definition subtotal :: "InvoiceItem list \<Rightarrow> number" where
  "subtotal items =
     foldl (\<lambda>sum item. jsadd sum (jsmul (toNumber (quantity item)) (toNumber (price item))))
       (Num 0) items"

text \<open>
  The totals block prints \<open>subtotal.toFixed(2)\<close> on the SUBTOTAL line and again on the
  TOTAL line; the formatter is the platform's and is the parameter \<open>toFixed2\<close>.
\<close>

record TotalsBlock =
  SUBTOTAL :: string
  TOTAL :: string

definition totalsBlock :: "(number \<Rightarrow> string) \<Rightarrow> InvoiceItem list \<Rightarrow> TotalsBlock" where
  "totalsBlock toFixed2 items =
     \<lparr>SUBTOTAL = toFixed2 (subtotal items), TOTAL = toFixed2 (subtotal items)\<rparr>"

subsection \<open>The input handlers of a row\<close>

text \<open>
  The \<open>onChange\<close> handlers of the row of the item with id \<open>i\<close>, given the text of the
  input element.
\<close>

definition descriptionOnChange :: "string \<Rightarrow> string \<Rightarrow> InvoiceItem list \<Rightarrow> InvoiceItem list" where
  "descriptionOnChange i text items = updateItem i Description (StringValue text) items"

definition quantityOnChange :: "string \<Rightarrow> string \<Rightarrow> InvoiceItem list \<Rightarrow> InvoiceItem list" where
  "quantityOnChange i text items =
     updateItem i Quantity (NumberValue (or_else (parseInt text) (Num 1))) items"

definition priceOnChange :: "string \<Rightarrow> string \<Rightarrow> InvoiceItem list \<Rightarrow> InvoiceItem list" where
  "priceOnChange i text items =
     updateItem i Price (NumberValue (or_else (parseFloat text) (Num 0))) items"

subsection \<open>Sequences of add and remove\<close>

datatype item_op = AddItem int | RemoveItem string

fun apply_op :: "InvoiceItem list \<Rightarrow> item_op \<Rightarrow> InvoiceItem list" where
  "apply_op items (AddItem now) = addItem now items"
| "apply_op items (RemoveItem i) = removeItem i items"

definition run_ops :: "InvoiceItem list \<Rightarrow> item_op list \<Rightarrow> InvoiceItem list" where
  "run_ops items ops = foldl apply_op items ops"

subsection \<open>Clock readings that give fresh ids\<close>

text \<open>
  A sequence of operations in which every \<open>addItem\<close> reads a clock value whose text is
  not yet the id of an item of the list it is applied to.
\<close>

fun fresh_clock :: "InvoiceItem list \<Rightarrow> item_op list \<Rightarrow> bool" where
  "fresh_clock itemList [] = True"
| "fresh_clock itemList (x # ops) =
     ((case x of
         AddItem now \<Rightarrow> StringValue (toString_int now) \<notin> set (map item_id itemList)
       | RemoveItem i \<Rightarrow> True) \<and>
      fresh_clock (apply_op itemList x) ops)"

section \<open>The draft and its store\<close>

subsection \<open>The draft\<close>

text \<open>
  \<open>interface InvoiceData\<close>, typed as declared: each of these cells is written by its own
  setter, and \<open>loadFromLocalStorage\<close> is declared to return \<open>InvoiceData | null\<close>. The
  field \<open>note\<close> is named \<open>noteText\<close> here.
\<close>

record InvoiceData =
  paperColor :: string
  signature :: "string option"
  invoiceNumber :: string
  date :: string
  fromName :: string
  fromAddress :: string
  toName :: string
  toAddress :: string
  items :: "InvoiceItem list"
  noteText :: string

definition STORAGE_KEY :: string where
  "STORAGE_KEY = ''invoice-creator-data''"

text \<open>The palette: the name of each swatch and its colour value.\<close>

definition PAPER_COLORS :: "(string \<times> string) list" where
  "PAPER_COLORS =
     [(''Cream'', ''oklch(0.96 0.01 85)''),
      (''White'', ''oklch(0.99 0 0)''),
      (''Mint'', ''oklch(0.96 0.02 160)''),
      (''Peach'', ''oklch(0.96 0.02 40)''),
      (''Blue'', ''oklch(0.96 0.02 240)'')]"

text \<open>
  \<open>defaultData\<close>. Its date is \<open>new Date().toISOString().split("T")[0]\<close>: the argument
  \<open>isoNow\<close> is the ISO text of the current instant, and \<open>split("T")[0]\<close> is what
  stands before the first \<open>T\<close>.
\<close>

definition defaultData :: "string \<Rightarrow> InvoiceData" where
  "defaultData isoNow =
     \<lparr>paperColor = snd (hd PAPER_COLORS),
      signature = None,
      invoiceNumber = ''INV-001'',
      date = takeWhile (\<lambda>c. c \<noteq> CHR ''T'') isoNow,
      fromName = [],
      fromAddress = [],
      toName = [],
      toAddress = [],
      items = [\<lparr>item_id = StringValue ''1'', description = StringValue [],
                quantity = NumberValue (Num 1), price = NumberValue (Num 0)\<rparr>],
      noteText = []\<rparr>"

subsection \<open>\<open>localStorage\<close>\<close>

text \<open>
  The browser's storage area: its entries, whether the page may touch it at all (a
  denied access raises \<open>SecurityError\<close>), and the space it grants (a write beyond it
  raises \<open>QuotaExceededError\<close>). \<open>getItem\<close> of a missing key is \<open>null\<close>, here \<open>None\<close>.
\<close>

datatype exception = SecurityError | QuotaExceededError | SyntaxError

record Storage =
  accessible :: bool
  quota :: nat
  entries :: "(string \<times> string) list"



definition getItem :: "Storage \<Rightarrow> string \<Rightarrow> exception + string option" where
  "getItem st k = (if accessible st then Inr (map_of (entries st) k) else Inl SecurityError)"


subsection \<open>Saving and loading\<close>



definition loadFromLocalStorage_try ::
  "(string \<Rightarrow> exception + 'a option) \<Rightarrow> Storage \<Rightarrow> exception + 'a option" where
  "loadFromLocalStorage_try JSON_parse st =
     (case getItem st STORAGE_KEY of
        Inl error \<Rightarrow> Inl error
      | Inr None \<Rightarrow> Inr None
      | Inr (Some stored) \<Rightarrow> if stored \<noteq> [] then JSON_parse stored else Inr None)"

definition loadFromLocalStorage ::
  "(string \<Rightarrow> exception + 'a option) \<Rightarrow> Storage \<Rightarrow> 'a option" where
  "loadFromLocalStorage JSON_parse st =
     (case loadFromLocalStorage_try JSON_parse st of
        Inl error \<Rightarrow> None
      | Inr savedData \<Rightarrow> savedData)"

subsection \<open>The component's state on mount\<close>

text \<open>
  The state starts as \<open>defaultData\<close>; the mount effect overwrites every cell when a
  saved draft was loaded (\<open>savedData.note || ""\<close> for the note) and leaves it otherwise.
\<close>

definition mountEffect ::
  "(string \<Rightarrow> exception + InvoiceData option) \<Rightarrow> Storage \<Rightarrow> InvoiceData \<Rightarrow> InvoiceData" where
  "mountEffect JSON_parse st state =
     (case loadFromLocalStorage JSON_parse st of
        None \<Rightarrow> state
      | Some savedData \<Rightarrow>
          state\<lparr>paperColor := paperColor savedData,
                signature := signature savedData,
                invoiceNumber := invoiceNumber savedData,
                date := date savedData,
                fromName := fromName savedData,
                fromAddress := fromAddress savedData,
                toName := toName savedData,
                toAddress := toAddress savedData,
                items := items savedData,
                noteText := (if noteText savedData \<noteq> [] then noteText savedData else [])\<rparr>)"

definition mounted ::
  "string \<Rightarrow> (string \<Rightarrow> exception + InvoiceData option) \<Rightarrow> Storage \<Rightarrow> InvoiceData" where
  "mounted isoNow JSON_parse st = mountEffect JSON_parse st (defaultData isoNow)"

section \<open>JSON\<close>

text \<open>
  \<open>JSON.stringify\<close> and \<open>JSON.parse\<close> are the platform's. They are written here after
  their ECMAScript algorithms (\<open>SerializeJSONProperty\<close> with no indentation,
  \<open>QuoteJSONString\<close>, \<open>Number::toString\<close>, and the JSON grammar with the property creation
  of the parsed objects), over strings of 8-bit characters and on the values a stored
  text can denote: \<open>null\<close>, booleans, numbers, strings, arrays and objects.
\<close>

subsection \<open>Values\<close>

text \<open>
  The JavaScript values that JSON texts denote. An object is the list of its properties
  in property order. \<open>toJS\<close> is the object \<open>currentData\<close> that the save effect builds from
  the state, with the properties in the order of the literal; an item has its properties
  in the order in which \<open>addItem\<close> and \<open>defaultData\<close> write them.
\<close>

datatype jsvalue =
    JNull
  | JBool bool
  | JNumber number
  | JString string
  | JArray "jsvalue list"
  | JObject "(string \<times> jsvalue) list"

fun field_toJS :: "field_value \<Rightarrow> jsvalue" where
  "field_toJS (StringValue s) = JString s"
| "field_toJS (NumberValue n) = JNumber n"

definition item_toJS :: "InvoiceItem \<Rightarrow> jsvalue" where
  "item_toJS item =
     JObject [(''id'', field_toJS (item_id item)),
              (''description'', field_toJS (description item)),
              (''quantity'', field_toJS (quantity item)),
              (''price'', field_toJS (price item))]"

definition toJS :: "InvoiceData \<Rightarrow> jsvalue" where
  "toJS data =
     JObject [(''paperColor'', JString (paperColor data)),
              (''signature'', (case signature data of None \<Rightarrow> JNull | Some s \<Rightarrow> JString s)),
              (''invoiceNumber'', JString (invoiceNumber data)),
              (''date'', JString (date data)),
              (''fromName'', JString (fromName data)),
              (''fromAddress'', JString (fromAddress data)),
              (''toName'', JString (toName data)),
              (''toAddress'', JString (toAddress data)),
              (''items'', JArray (map item_toJS (items data))),
              (''note'', JString (noteText data))]"

subsection \<open>\<open>Number::toString\<close>\<close>

text \<open>
  The decimal text of a positive double \<open>x\<close>: digits \<open>s\<close> (\<open>k\<close> of them, the first not 0)
  and an exponent \<open>n\<close> such that \<open>s * 10^(n-k)\<close> is read back as \<open>x\<close>, with \<open>k\<close> as small as
  possible and, among those, \<open>s * 10^(n-k)\<close> as close to \<open>x\<close> as possible.

  \<open>decimal_exponent 632 x\<close> is the \<open>n\<close> with \<open>10^(n-1) \<le> x < 10^n\<close>. For each \<open>k\<close> the
  candidates are the two \<open>k\<close>-digit decimals around \<open>x\<close> and the power of ten above it.
\<close>

fun decimal_exponent :: "nat \<Rightarrow> rat \<Rightarrow> int" where
  "decimal_exponent 0 x = - 323"
| "decimal_exponent (Suc j) x =
     (if 10 powi (int j - 323) \<le> x then int j - 322 else decimal_exponent j x)"

definition candidate_value :: "nat \<Rightarrow> nat \<times> int \<Rightarrow> rat" where
  "candidate_value k c = of_nat (fst c) * 10 powi (snd c - int k)"

definition accepts :: "rat \<Rightarrow> nat \<Rightarrow> nat \<times> int \<Rightarrow> bool" where
  "accepts x k c =
     (10 ^ (k - 1) \<le> fst c \<and> fst c < 10 ^ k \<and> round_double (candidate_value k c) = Num x)"

definition closer :: "rat \<Rightarrow> nat \<Rightarrow> nat \<times> int \<Rightarrow> nat \<times> int \<Rightarrow> nat \<times> int" where
  "closer x k c d =
     (let dc = \<bar>candidate_value k c - x\<bar>; dd = \<bar>candidate_value k d - x\<bar>
      in if dd < dc \<or> (dd = dc \<and> even (fst d)) then d else c)"

definition best_candidate :: "rat \<Rightarrow> int \<Rightarrow> nat \<Rightarrow> (nat \<times> int) option" where
  "best_candidate x n0 k =
     (let lo = nat \<lfloor>x / 10 powi (n0 - int k)\<rfloor>
      in case filter (accepts x k) [(lo, n0), (lo + 1, n0), (10 ^ (k - 1), n0 + 1)] of
           [] \<Rightarrow> None
         | c # cs \<Rightarrow> Some (foldl (closer x k) c cs))"

fun search_digits :: "rat \<Rightarrow> int \<Rightarrow> nat list \<Rightarrow> (nat \<times> int) option" where
  "search_digits x n0 [] = None"
| "search_digits x n0 (k # ks) =
     (case best_candidate x n0 k of
        Some c \<Rightarrow> Some c
      | None \<Rightarrow> search_digits x n0 ks)"

text \<open>
  Seventeen digits are enough for every double, so the search below always succeeds on a
  double. So that the function is total without that fact, a failed search falls back on
  the exact decimal expansion of \<open>x\<close>, which a double always has.
\<close>

definition is_integer :: "rat \<Rightarrow> bool" where
  "is_integer q = (of_int \<lfloor>q\<rfloor> = q)"

fun find_scale :: "nat \<Rightarrow> nat \<Rightarrow> rat \<Rightarrow> nat option" where
  "find_scale 0 j x = (if is_integer (x * 10 ^ j) then Some j else None)"
| "find_scale (Suc f) j x =
     (if is_integer (x * 10 ^ j) then Some j else find_scale f (Suc j) x)"

definition exact_digits :: "rat \<Rightarrow> nat \<times> int" where
  "exact_digits x =
     (case find_scale 1074 0 x of
        None \<Rightarrow> (0, 1)
      | Some j \<Rightarrow>
          (let s = nat \<lfloor>x * 10 ^ j\<rfloor> in (s, int (length (digits s)) - int j)))"

definition shortest_digits :: "rat \<Rightarrow> nat \<times> int" where
  "shortest_digits x =
     (case search_digits x (decimal_exponent 632 x)
             [1, 2, 3, 4, 5, 6, 7, 8, 9, 10, 11, 12, 13, 14, 15, 16, 17] of
        Some c \<Rightarrow> c
      | None \<Rightarrow> exact_digits x)"

text \<open>The layout of the digits \<open>ds\<close> with exponent \<open>n\<close>.\<close>

definition format_number :: "string \<Rightarrow> int \<Rightarrow> string" where
  "format_number ds n =
     (let k = int (length ds)
      in if k \<le> n \<and> n \<le> 21 then ds @ replicate (nat (n - k)) CHR ''0''
         else if 0 < n \<and> n \<le> 21 then take (nat n) ds @ CHR ''.'' # drop (nat n) ds
         else if - 6 < n \<and> n \<le> 0 then ''0.'' @ replicate (nat (- n)) CHR ''0'' @ ds
         else
           (let e = n - 1;
                ex = CHR ''e'' # (if e < 0 then CHR ''-'' else CHR ''+'') # digits (nat \<bar>e\<bar>)
            in if k = 1 then ds @ ex else hd ds # CHR ''.'' # tl ds @ ex))"

definition positive_toString :: "rat \<Rightarrow> string" where
  "positive_toString x = (case shortest_digits x of (s, n) \<Rightarrow> format_number (digits s) n)"

definition number_toString :: "number \<Rightarrow> string" where
  "number_toString n =
     (case n of
        NaN \<Rightarrow> ''NaN''
      | PosInf \<Rightarrow> ''Infinity''
      | NegInf \<Rightarrow> ''-Infinity''
      | Num r \<Rightarrow>
          if r = 0 then ''0''
          else if r < 0 then CHR ''-'' # positive_toString (- r)
          else positive_toString r)"

subsection \<open>\<open>JSON.stringify\<close>\<close>

definition hex_digit :: "nat \<Rightarrow> char" where
  "hex_digit d = ''0123456789abcdef'' ! d"

definition unicode_escape :: "char \<Rightarrow> string" where
  "unicode_escape c =
     [CHR 0x5C, CHR ''u'', CHR ''0'', CHR ''0'',
      hex_digit ((of_char c :: nat) div 16), hex_digit ((of_char c :: nat) mod 16)]"

definition escape_char :: "char \<Rightarrow> string" where
  "escape_char c =
     (if c = CHR 0x08 then [CHR 0x5C, CHR ''b'']
      else if c = CHR 0x09 then [CHR 0x5C, CHR ''t'']
      else if c = CHR 0x0A then [CHR 0x5C, CHR ''n'']
      else if c = CHR 0x0C then [CHR 0x5C, CHR ''f'']
      else if c = CHR 0x0D then [CHR 0x5C, CHR ''r'']
      else if c = CHR 0x22 then [CHR 0x5C, CHR 0x22]
      else if c = CHR 0x5C then [CHR 0x5C, CHR 0x5C]
      else if (of_char c :: nat) < 32 then unicode_escape c
      else [c])"

definition QuoteJSONString :: "string \<Rightarrow> string" where
  "QuoteJSONString s = CHR 0x22 # concat (map escape_char s) @ [CHR 0x22]"

fun json_stringify :: "jsvalue \<Rightarrow> string"
  and stringify_elements :: "jsvalue list \<Rightarrow> string"
  and stringify_members :: "(string \<times> jsvalue) list \<Rightarrow> string" where
  "json_stringify JNull = ''null''"
| "json_stringify (JBool b) = (if b then ''true'' else ''false'')"
| "json_stringify (JNumber n) = (case n of Num r \<Rightarrow> number_toString n | _ \<Rightarrow> ''null'')"
| "json_stringify (JString s) = QuoteJSONString s"
| "json_stringify (JArray vs) = CHR ''['' # stringify_elements vs @ '']''"
| "json_stringify (JObject ms) = CHR ''{'' # stringify_members ms @ ''}''"
| "stringify_elements [] = []"
| "stringify_elements [v] = json_stringify v"
| "stringify_elements (v # w # vs) = json_stringify v @ CHR '','' # stringify_elements (w # vs)"
| "stringify_members [] = []"
| "stringify_members [(k, v)] = QuoteJSONString k @ CHR '':'' # json_stringify v"
| "stringify_members ((k, v) # m # ms) =
     QuoteJSONString k @ CHR '':'' # json_stringify v @ CHR '','' # stringify_members (m # ms)"

subsection \<open>\<open>JSON.parse\<close>\<close>

definition is_json_ws :: "char \<Rightarrow> bool" where
  "is_json_ws c = (c = CHR 0x20 \<or> c = CHR 0x09 \<or> c = CHR 0x0A \<or> c = CHR 0x0D)"

definition skip_ws :: "string \<Rightarrow> string" where
  "skip_ws s = dropWhile is_json_ws s"

text \<open>
  A string after its opening quote, up to the closing one. An escape \<open>\\uXXXX\<close> above
  \<open>00FF\<close> names a code unit that the 8-bit strings of this model do not have; the model
  takes such a text as ill-formed.
\<close>

definition simple_escape :: "char \<Rightarrow> char option" where
  "simple_escape e =
     (if e = CHR 0x22 then Some (CHR 0x22)
      else if e = CHR 0x5C then Some (CHR 0x5C)
      else if e = CHR ''/'' then Some (CHR ''/'')
      else if e = CHR ''b'' then Some (CHR 0x08)
      else if e = CHR ''f'' then Some (CHR 0x0C)
      else if e = CHR ''n'' then Some (CHR 0x0A)
      else if e = CHR ''r'' then Some (CHR 0x0D)
      else if e = CHR ''t'' then Some (CHR 0x09)
      else None)"

definition hex4 :: "char \<Rightarrow> char \<Rightarrow> char \<Rightarrow> char \<Rightarrow> nat option" where
  "hex4 a b c d =
     (if radixDigit 16 a \<and> radixDigit 16 b \<and> radixDigit 16 c \<and> radixDigit 16 d
      then Some (mathInt 16 [a, b, c, d]) else None)"

definition cons_char :: "char \<Rightarrow> (string \<times> string) option \<Rightarrow> (string \<times> string) option" where
  "cons_char c r = map_option (\<lambda>(str, rest). (c # str, rest)) r"

fun parse_string :: "string \<Rightarrow> (string \<times> string) option" where
  "parse_string [] = None"
| "parse_string (c # t) =
     (if c = CHR 0x22 then Some ([], t)
      else if c = CHR 0x5C then
        (case t of
           [] \<Rightarrow> None
         | e # t1 \<Rightarrow>
             if e = CHR ''u'' then
               (case t1 of
                  a # b # c' # d # t2 \<Rightarrow>
                    (case hex4 a b c' d of
                       None \<Rightarrow> None
                     | Some v \<Rightarrow> if v < 256 then cons_char (char_of v) (parse_string t2) else None)
                | _ \<Rightarrow> None)
             else
               (case simple_escape e of
                  None \<Rightarrow> None
                | Some x \<Rightarrow> cons_char x (parse_string t1)))
      else if (of_char c :: nat) < 32 then None
      else cons_char c (parse_string t))"

text \<open>A number: \<open>-\<close>? (\<open>0\<close> | digit 1-9, digits) (\<open>.\<close> digits)? ((\<open>e\<close>|\<open>E\<close>) sign? digits)?\<close>

definition json_exponent :: "string \<Rightarrow> (int \<times> string) option" where
  "json_exponent r =
     (case r of
        [] \<Rightarrow> Some (0, r)
      | c # t \<Rightarrow>
          if c = CHR ''e'' \<or> c = CHR ''E'' then
            (let neg = (t \<noteq> [] \<and> hd t = CHR ''-'');
                 t1 = (if t \<noteq> [] \<and> (hd t = CHR ''+'' \<or> hd t = CHR ''-'') then tl t else t);
                 ds = takeWhile isDecimalDigit t1
             in if ds = [] then None
                else Some (if neg then - int (mathInt 10 ds) else int (mathInt 10 ds),
                           dropWhile isDecimalDigit t1))
          else Some (0, r))"

definition json_int_part :: "string \<Rightarrow> (string \<times> string) option" where
  "json_int_part s =
     (case s of
        [] \<Rightarrow> None
      | c # t \<Rightarrow>
          if \<not> isDecimalDigit c then None
          else if c = CHR ''0'' then Some ([c], t)
          else Some (c # takeWhile isDecimalDigit t, dropWhile isDecimalDigit t))"

definition json_frac_part :: "string \<Rightarrow> (string \<times> string) option" where
  "json_frac_part r =
     (if r \<noteq> [] \<and> hd r = CHR ''.'' then
        (let fp = takeWhile isDecimalDigit (tl r)
         in if fp = [] then None else Some (fp, dropWhile isDecimalDigit (tl r)))
      else Some ([], r))"

definition json_unsigned :: "string \<Rightarrow> (number \<times> string) option" where
  "json_unsigned s =
     (case json_int_part s of
        None \<Rightarrow> None
      | Some (ip, r1) \<Rightarrow>
          (case json_frac_part r1 of
             None \<Rightarrow> None
           | Some (fp, r2) \<Rightarrow>
               (case json_exponent r2 of
                  None \<Rightarrow> None
                | Some (e, r3) \<Rightarrow>
                    Some (round_double
                            (scale10 (of_nat (mathInt 10 ip) +
                                      of_nat (mathInt 10 fp) / 10 ^ length fp) e),
                          r3))))"

definition json_number :: "string \<Rightarrow> (number \<times> string) option" where
  "json_number s =
     (if s \<noteq> [] \<and> hd s = CHR ''-''
      then map_option (\<lambda>(v, r). (negate v, r)) (json_unsigned (tl s))
      else json_unsigned s)"

text \<open>
  Property creation on the object under construction: a key that is there gets the new
  value in place; a new array-index key goes among the index keys in ascending order,
  which come first; any other new key goes last.
\<close>

definition is_array_index :: "string \<Rightarrow> bool" where
  "is_array_index k =
     (k \<noteq> [] \<and> list_all isDecimalDigit k \<and> (hd k \<noteq> CHR ''0'' \<or> k = ''0'') \<and>
      mathInt 10 k < 4294967295)"

fun insert_index :: "string \<Rightarrow> jsvalue \<Rightarrow> (string \<times> jsvalue) list \<Rightarrow> (string \<times> jsvalue) list" where
  "insert_index k v [] = [(k, v)]"
| "insert_index k v (m # ms) =
     (if is_array_index (fst m) \<and> mathInt 10 (fst m) < mathInt 10 k
      then m # insert_index k v ms
      else (k, v) # m # ms)"

definition set_property :: "string \<Rightarrow> jsvalue \<Rightarrow> (string \<times> jsvalue) list \<Rightarrow> (string \<times> jsvalue) list" where
  "set_property k v ms =
     (if k \<in> set (map fst ms) then map (\<lambda>m. if fst m = k then (k, v) else m) ms
      else if is_array_index k then insert_index k v ms
      else ms @ [(k, v)])"

text \<open>
  The recursive descent over the text, with a step count \<open>n\<close> that every call decreases;
  \<open>json_parse\<close> grants more steps than a text of the given length can use.
\<close>

fun parse_value :: "nat \<Rightarrow> string \<Rightarrow> (jsvalue \<times> string) option"
  and parse_elements :: "nat \<Rightarrow> jsvalue list \<Rightarrow> string \<Rightarrow> (jsvalue list \<times> string) option"
  and parse_members ::
    "nat \<Rightarrow> (string \<times> jsvalue) list \<Rightarrow> string \<Rightarrow> ((string \<times> jsvalue) list \<times> string) option" where
  "parse_value 0 s = None"
| "parse_value (Suc n) s =
     (case skip_ws s of
        [] \<Rightarrow> None
      | c # t \<Rightarrow>
          if c = CHR ''['' then
            (if skip_ws t \<noteq> [] \<and> hd (skip_ws t) = CHR '']'' then Some (JArray [], tl (skip_ws t))
             else map_option (\<lambda>(vs, r). (JArray vs, r)) (parse_elements n [] t))
          else if c = CHR ''{'' then
            (if skip_ws t \<noteq> [] \<and> hd (skip_ws t) = CHR ''}'' then Some (JObject [], tl (skip_ws t))
             else map_option (\<lambda>(ms, r). (JObject ms, r)) (parse_members n [] t))
          else if c = CHR 0x22 then map_option (\<lambda>(x, r). (JString x, r)) (parse_string t)
          else if take 4 (c # t) = ''true'' then Some (JBool True, drop 4 (c # t))
          else if take 5 (c # t) = ''false'' then Some (JBool False, drop 5 (c # t))
          else if take 4 (c # t) = ''null'' then Some (JNull, drop 4 (c # t))
          else map_option (\<lambda>(x, r). (JNumber x, r)) (json_number (c # t)))"
| "parse_elements 0 acc s = None"
| "parse_elements (Suc n) acc s =
     (case parse_value n s of
        None \<Rightarrow> None
      | Some (v, r) \<Rightarrow>
          (case skip_ws r of
             [] \<Rightarrow> None
           | c # r1 \<Rightarrow>
               if c = CHR '','' then parse_elements n (acc @ [v]) r1
               else if c = CHR '']'' then Some (acc @ [v], r1)
               else None))"
| "parse_members 0 acc s = None"
| "parse_members (Suc n) acc s =
     (case skip_ws s of
        [] \<Rightarrow> None
      | q # t \<Rightarrow>
          if q \<noteq> CHR 0x22 then None
          else
            (case parse_string t of
               None \<Rightarrow> None
             | Some (k, r) \<Rightarrow>
                 (case skip_ws r of
                    [] \<Rightarrow> None
                  | c # r1 \<Rightarrow>
                      if c \<noteq> CHR '':'' then None
                      else
                        (case parse_value n r1 of
                           None \<Rightarrow> None
                         | Some (v, r2) \<Rightarrow>
                             (case skip_ws r2 of
                                [] \<Rightarrow> None
                              | d # r3 \<Rightarrow>
                                  if d = CHR '','' then parse_members n (set_property k v acc) r3
                                  else if d = CHR ''}'' then Some (set_property k v acc, r3)
                                  else None)))))"

definition json_parse :: "string \<Rightarrow> exception + jsvalue" where
  "json_parse text =
     (case parse_value (2 * length text + 2) text of
        None \<Rightarrow> Inl SyntaxError
      | Some (v, rest) \<Rightarrow> if skip_ws rest = [] then Inr v else Inl SyntaxError)"

text \<open>
  The two functions as \<open>saveToLocalStorage\<close> and \<open>loadFromLocalStorage\<close> use them: the
  draft is serialized as its object, and the parsed value is \<open>null\<close> or a value to return.
\<close>

definition stringify_draft :: "InvoiceData \<Rightarrow> string" where
  "stringify_draft data = json_stringify (toJS data)"

definition parse_stored :: "string \<Rightarrow> exception + jsvalue option" where
  "parse_stored text =
     (case json_parse text of
        Inl error \<Rightarrow> Inl error
      | Inr v \<Rightarrow> Inr (if v = JNull then None else Some v))"

subsection \<open>What can be serialized and read back\<close>

text \<open>The text after a value inside an array or an object, or the end of the text.\<close>

definition delimited :: "string \<Rightarrow> bool" where
  "delimited rest = (rest = [] \<or> hd rest = CHR '','' \<or> hd rest = CHR '']'' \<or> hd rest = CHR ''}'')"

text \<open>
  The values that \<open>JSON.stringify\<close> writes without loss: every number is a finite double,
  and no object has a key twice or an array-index key (the order of such keys is not the
  order of creation).
\<close>

fun serializable :: "jsvalue \<Rightarrow> bool"
  and serializable_elements :: "jsvalue list \<Rightarrow> bool"
  and serializable_members :: "(string \<times> jsvalue) list \<Rightarrow> bool" where
  "serializable JNull = True"
| "serializable (JBool b) = True"
| "serializable (JNumber n) = (case n of Num r \<Rightarrow> is_double r | _ \<Rightarrow> False)"
| "serializable (JString s) = True"
| "serializable (JArray vs) = serializable_elements vs"
| "serializable (JObject ms) = (serializable_members ms \<and> distinct (map fst ms))"
| "serializable_elements [] = True"
| "serializable_elements (v # vs) = (serializable v \<and> serializable_elements vs)"
| "serializable_members [] = True"
| "serializable_members ((k, v) # ms) =
     (\<not> is_array_index k \<and> serializable v \<and> serializable_members ms)"

section \<open>What the specification says, for comparison\<close>

text \<open>
  The draft schema gives every line item a quantity and a unit price that are finite
  numbers. On such items the specification's totals are plain arithmetic:
  line total = quantity \<open>\<times>\<close> unit price, subtotal = sum of the line totals.
\<close>

fun is_finite_number :: "field_value \<Rightarrow> bool" where
  "is_finite_number (NumberValue (Num _)) = True"
| "is_finite_number _ = False"

fun amount :: "field_value \<Rightarrow> rat" where
  "amount (NumberValue (Num r)) = r"
| "amount _ = 0"

definition schema_item :: "InvoiceItem \<Rightarrow> bool" where
  "schema_item item = (is_finite_number (quantity item) \<and> is_finite_number (price item))"

definition spec_lineTotal :: "InvoiceItem \<Rightarrow> rat" where
  "spec_lineTotal item = amount (quantity item) * amount (price item)"

definition spec_subtotal :: "InvoiceItem list \<Rightarrow> rat" where
  "spec_subtotal itemList = sum_list (map spec_lineTotal itemList)"

text \<open>
  The running sum meets no rounding: every row total, and every partial sum from \<open>acc\<close>
  on, is a double as it stands.
\<close>

fun exact_steps :: "rat \<Rightarrow> InvoiceItem list \<Rightarrow> bool" where
  "exact_steps acc [] = True"
| "exact_steps acc (item # rest) =
     (is_double (spec_lineTotal item) \<and> is_double (acc + spec_lineTotal item) \<and>
      exact_steps (acc + spec_lineTotal item) rest)"


text \<open>
  A draft whose items hold, in every field, a string or a finite number. The drafts of
  the schema are of this kind: an id and a description that are texts, a quantity and a
  unit price that are finite numbers.
\<close>

fun storable :: "field_value \<Rightarrow> bool" where
  "storable (StringValue s) = True"
| "storable (NumberValue (Num r)) = is_double r"
| "storable (NumberValue _) = False"

definition storable_item :: "InvoiceItem \<Rightarrow> bool" where
  "storable_item item =
     (storable (item_id item) \<and> storable (description item) \<and>
      storable (quantity item) \<and> storable (price item))"

definition schema_draft :: "InvoiceData \<Rightarrow> bool" where
  "schema_draft data = list_all storable_item (items data)"

section \<open>Concrete inputs\<close>

text \<open>
  The default draft of 3 November 2026, the text \<open>JSON.stringify\<close> gives for it, and
  \<open>JSON.parse\<close> read at the declared type on that text, on \<open>null\<close> and on the cut-off text
  of \<open>corrupt_storage\<close> below.
\<close>

definition sample_draft :: InvoiceData where
  "sample_draft = defaultData ''2026-11-03T09:30:00.000Z''"

definition sample_payload :: string where
  \<open>sample_payload =
     ''{"paperColor":"oklch(0.96 0.01 85)","signature":null,"invoiceNumber":"INV-001",'' @
     ''"date":"2026-11-03","fromName":"","fromAddress":"","toName":"","toAddress":"",'' @
     ''"items":[{"id":"1","description":"","quantity":1,"price":0}],"note":""}''\<close>

definition sample_parse :: "string \<Rightarrow> exception + InvoiceData option" where
  "sample_parse stored =
     (if stored = sample_payload then Inr (Some sample_draft)
      else if stored = ''null'' then Inr None
      else Inl SyntaxError)"

text \<open>
  A storage area with room, one with none, one the page may not touch, and one that
  holds a cut-off text under the storage key.
\<close>

definition roomy_storage :: Storage where
  "roomy_storage = \<lparr>accessible = True, quota = 5000000, entries = []\<rparr>"


definition denied_storage :: Storage where
  "denied_storage = \<lparr>accessible = False, quota = 5000000, entries = []\<rparr>"

definition corrupt_storage :: Storage where
  \<open>corrupt_storage =
     \<lparr>accessible = True, quota = 5000000, entries = [(STORAGE_KEY, ''{"paperColor":'')]\<rparr>\<close>

text \<open>The item list of the default draft.\<close>

definition default_items :: "InvoiceItem list" where
  "default_items = items (defaultData ''2026-11-03T09:30:00.000Z'')"

text \<open>
  Two items of quantity 1 whose prices are the doubles nearest to 0.1 and to 0.2, as
  \<open>parseFloat\<close> gives them for the texts \<open>0.1\<close> and \<open>0.2\<close>.
\<close>

definition tenth :: rat where
  "tenth = 3602879701896397 / 36028797018963968"

definition two_tenths :: rat where
  "two_tenths = 3602879701896397 / 18014398509481984"

definition tenths_items :: "InvoiceItem list" where
  "tenths_items =
     [\<lparr>item_id = StringValue ''1'', description = StringValue [],
       quantity = NumberValue (Num 1), price = NumberValue (Num tenth)\<rparr>,
      \<lparr>item_id = StringValue ''2'', description = StringValue [],
       quantity = NumberValue (Num 1), price = NumberValue (Num two_tenths)\<rparr>]"

text \<open>
  The list of the specification's scenario: the default item, then two added items, the
  first of them edited to quantity 3 at 10.50.
\<close>

definition scenario_items :: "InvoiceItem list" where
  "scenario_items =
     [\<lparr>item_id = StringValue ''1'', description = StringValue [],
       quantity = NumberValue (Num 1), price = NumberValue (Num 0)\<rparr>,
      \<lparr>item_id = StringValue ''1700000000000'', description = StringValue [],
       quantity = NumberValue (Num 3), price = NumberValue (Num (21 / 2))\<rparr>,
      \<lparr>item_id = StringValue ''1700000000250'', description = StringValue [],
       quantity = NumberValue (Num 1), price = NumberValue (Num 0)\<rparr>]"

section \<open>Rounding to doubles\<close>

lemma round_half_even_int [simp]: "round_half_even (of_int n) = n"
  by (simp add: round_half_even_def)

lemma exponent_of_lower: "- 1074 \<le> exponent_of k a"
  by (induction k) auto

lemma exponent_of_upper: "exponent_of k a \<le> int k - 1074"
  by (induction k) auto

lemma exponent_of_normal:
  "exponent_of k a = - 1074 \<or> 2 powi (exponent_of k a + 52) \<le> a"
  by (induction k) (auto simp: algebra_simps)

lemma exponent_of_char:
  "- 1074 \<le> e \<Longrightarrow> e \<le> int k - 1074 \<Longrightarrow> 2 powi (e + 52) \<le> a \<Longrightarrow> a < 2 powi (e + 53) \<Longrightarrow>
     exponent_of k a = e"
proof (induction k)
  case 0
  then show ?case by simp
next
  case (Suc k)
  show ?case
  proof (cases "e = int k - 1073")
    case True
    with Suc.prems show ?thesis by (simp add: algebra_simps)
  next
    case False
    with Suc.prems have le: "e \<le> int k - 1074" by simp
    then have "(2::rat) powi (e + 53) \<le> 2 powi (int k - 1021)"
      by (intro power_int_increasing) auto
    with Suc.prems have "\<not> 2 powi (int k - 1021) \<le> a" by simp
    with Suc.IH [OF Suc.prems(1) le Suc.prems(3) Suc.prems(4)] show ?thesis by simp
  qed
qed

lemma exponent_of_subnormal:
  "a < 2 powi (- 1022) \<Longrightarrow> exponent_of k a = - 1074"
proof (induction k)
  case 0
  then show ?case by simp
next
  case (Suc k)
  have "(2::rat) powi (- 1022) \<le> 2 powi (int k - 1021)"
    by (intro power_int_increasing) auto
  with Suc show ?case by simp
qed

lemma double_limit_powi: "double_limit = 2 powi 1024"
  by (simp add: double_limit_def)

lemma round_half_even_half:
  "round_half_even (of_int n + 1 / 2) = (if even n then n else n + 1)"
proof -
  have "\<lfloor>(of_int n :: rat) + 1 / 2\<rfloor> = n"
    by (rule floor_unique) simp_all
  then show ?thesis
    by (simp add: round_half_even_def Let_def)
qed

lemma round_magnitude_exact:
  assumes a: "a = of_int m * 2 powi e" and m0: "0 \<le> m" and m: "m < 2 ^ 53"
    and lo: "- 1074 \<le> e" and hi: "e \<le> 971"
  shows "round_magnitude a = a \<and> a < double_limit"
proof -
  define e' where "e' = exponent_of 2045 a"
  have "of_int m < (2::rat) ^ 53"
    using m by (metis of_int_less_iff of_int_numeral of_int_power)
  then have "a < 2 ^ 53 * 2 powi e"
    unfolding a by (intro mult_strict_right_mono) auto
  also have "\<dots> = 2 powi (e + 53)"
    by (simp add: power_int_add)
  finally have a_less: "a < 2 powi (e + 53)" .
  have le: "e' \<le> e"
  proof (rule ccontr)
    assume "\<not> e' \<le> e"
    then have gt: "e < e'" by simp
    with lo have "e' \<noteq> - 1074" by simp
    with exponent_of_normal [of 2045 a] have "2 powi (e' + 52) \<le> a"
      by (simp add: e'_def)
    moreover have "(2::rat) powi (e + 53) \<le> 2 powi (e' + 52)"
      using gt by (intro power_int_increasing) auto
    ultimately show False using a_less by simp
  qed
  have "a / 2 powi e' = of_int m * 2 powi (e - e')"
    unfolding a by (simp add: power_int_diff)
  also have "\<dots> = of_int (m * 2 ^ nat (e - e'))"
    using le by (simp add: power_int_def)
  finally have q: "a / 2 powi e' = of_int (m * 2 ^ nat (e - e'))" .
  have "of_int (round_half_even (a / 2 powi e')) * 2 powi e' = a / 2 powi e' * 2 powi e'"
    unfolding q round_half_even_int ..
  also have "\<dots> = a"
    by simp
  finally have v: "round_magnitude a = a"
    by (simp add: round_magnitude_def Let_def e'_def)
  have "(2::rat) powi (e + 53) \<le> 2 powi 1024"
    using hi by (intro power_int_increasing) auto
  with a_less have "a < double_limit"
    by (simp only: double_limit_powi)
  with v show ?thesis by simp
qed

lemma round_double_exact:
  assumes r: "r = of_int m * 2 powi e" and m: "\<bar>m\<bar> < 2 ^ 53"
    and lo: "- 1074 \<le> e" and hi: "e \<le> 971"
  shows "round_double r = Num r"
proof -
  have "\<bar>r\<bar> = of_int \<bar>m\<bar> * 2 powi e"
    by (simp add: r abs_mult)
  from round_magnitude_exact [OF this _ m lo hi]
  have "round_magnitude \<bar>r\<bar> = \<bar>r\<bar>" and "\<bar>r\<bar> < double_limit"
    by simp_all
  then show ?thesis
    by (simp add: round_double_def Let_def)
qed

lemma round_double_int:
  assumes "\<bar>z\<bar> \<le> 2 ^ 53"
  shows "round_double (of_int z) = Num (of_int z)"
proof (cases "\<bar>z\<bar> < 2 ^ 53")
  case True
  then show ?thesis
    by (intro round_double_exact [where m = z and e = 0]) auto
next
  case False
  with assms have "\<bar>z\<bar> = 2 ^ 53" by simp
  then have "z = 2 ^ 53 \<or> z = - (2 ^ 53)" by (simp add: abs_if split: if_splits)
  then show ?thesis
  proof
    assume "z = 2 ^ 53"
    then show ?thesis
      by (intro round_double_exact [where m = "2 ^ 52" and e = 1]) auto
  next
    assume "z = - (2 ^ 53)"
    then show ?thesis
      by (intro round_double_exact [where m = "- (2 ^ 52)" and e = 1]) auto
  qed
qed

lemma round_magnitude_normal:
  assumes "- 1074 \<le> e" and "e \<le> 971"
    and "2 powi (e + 52) \<le> a" and "a < 2 powi (e + 53)"
  shows "round_magnitude a = of_int (round_half_even (a / 2 powi e)) * 2 powi e"
proof -
  have "exponent_of 2045 a = e"
    using assms by (intro exponent_of_char) auto
  then show ?thesis
    by (simp add: round_magnitude_def Let_def)
qed







lemma round_double_zero: "round_double 0 = Num 0"
  using round_double_int [of 0] by simp

lemma is_double_int: "\<bar>z\<bar> \<le> 2 ^ 53 \<Longrightarrow> is_double (of_int z)"
  by (simp add: is_double_def round_double_int)

lemma is_double_zero: "is_double 0"
  by (simp add: is_double_def round_double_zero)

lemma is_double_tenth: "is_double tenth"
  unfolding is_double_def tenth_def
  by (rule round_double_exact [where m = 3602879701896397 and e = "- 55"]) simp_all

lemma is_double_two_tenths: "is_double two_tenths"
  unfolding is_double_def two_tenths_def
  by (rule round_double_exact [where m = 3602879701896397 and e = "- 54"]) simp_all

lemma three_tenths_magnitude:
  "round_magnitude (tenth + two_tenths) = 5404319552844596 / 18014398509481984"
proof -
  have s: "tenth + two_tenths = 10808639105689191 / 36028797018963968"
    by (simp add: tenth_def two_tenths_def)
  have "round_magnitude (10808639105689191 / 36028797018963968) =
      of_int (round_half_even (10808639105689191 / 36028797018963968 / 2 powi (- 54))) *
      2 powi (- 54)"
    by (rule round_magnitude_normal) simp_all
  also have "(10808639105689191 :: rat) / 36028797018963968 / 2 powi (- 54) =
      of_int 5404319552844595 + 1 / 2"
    by simp
  also have "round_half_even (of_int 5404319552844595 + 1 / 2) = 5404319552844596"
    by (simp only: round_half_even_half) simp
  finally show ?thesis by (simp add: s)
qed

lemma three_tenths_rounds:
  "round_double (tenth + two_tenths) = Num (5404319552844596 / 18014398509481984)"
proof -
  have "0 \<le> tenth + two_tenths"
    by (simp add: tenth_def two_tenths_def)
  then show ?thesis
    by (simp add: round_double_def Let_def three_tenths_magnitude double_limit_def)
qed

lemma round_half_even_up:
  "of_int n + 1 / 2 < q \<Longrightarrow> q < of_int n + 1 \<Longrightarrow> round_half_even q = n + 1"
proof -
  assume a: "of_int n + 1 / 2 < q" and b: "q < of_int n + 1"
  have "\<lfloor>q\<rfloor> = n"
    using a b by (intro floor_unique) simp_all
  with a show ?thesis
    by (simp add: round_half_even_def Let_def)
qed

lemma round_half_even_down:
  "of_int n \<le> q \<Longrightarrow> q < of_int n + 1 / 2 \<Longrightarrow> round_half_even q = n"
proof -
  assume a: "of_int n \<le> q" and b: "q < of_int n + 1 / 2"
  have "\<lfloor>q\<rfloor> = n"
    using a b by (intro floor_unique) simp_all
  with b show ?thesis
    by (simp add: round_half_even_def Let_def)
qed

lemma round_double_tenth: "round_double (1 / 10) = Num tenth"
proof -
  have "round_magnitude (1 / 10) =
      of_int (round_half_even (1 / 10 / 2 powi (- 56))) * 2 powi (- 56)"
    by (rule round_magnitude_normal) simp_all
  also have "round_half_even (1 / 10 / 2 powi (- 56)) = 7205759403792793 + 1"
    by (rule round_half_even_up) simp_all
  finally have "round_magnitude (1 / 10) = tenth"
    by (simp add: tenth_def)
  then show ?thesis
    by (simp add: round_double_def Let_def double_limit_def tenth_def)
qed

lemma round_double_two_tenths: "round_double (2 / 10) = Num two_tenths"
proof -
  have "round_magnitude (2 / 10) =
      of_int (round_half_even (2 / 10 / 2 powi (- 55))) * 2 powi (- 55)"
    by (rule round_magnitude_normal) simp_all
  also have "round_half_even (2 / 10 / 2 powi (- 55)) = 7205759403792793 + 1"
    by (rule round_half_even_up) simp_all
  finally have "round_magnitude (2 / 10) = two_tenths"
    by (simp add: two_tenths_def)
  then show ?thesis
    by (simp add: round_double_def Let_def double_limit_def two_tenths_def)
qed

section \<open>The item list: removing, updating, adding\<close>

lemma get_set_same: "get_field k (set_field k v item) = v"
  by (cases k) simp_all

lemma get_set_other: "g \<noteq> k \<Longrightarrow> get_field g (set_field k v item) = get_field g item"
  by (cases k; cases g) simp_all

lemma updateItem_nth_match:
  "n < length its \<Longrightarrow> item_id (its ! n) = StringValue i \<Longrightarrow>
     updateItem i k v its ! n = set_field k v (its ! n)"
  by (simp add: updateItem_def)

text \<open>
  Claim C4. On a list of exactly one item, \<open>removeItem\<close> with any id, matching or not,
  changes nothing: the list afterwards is the same one-item list.
\<close>

theorem removeItem_single_noop:
  "length its = 1 \<Longrightarrow> removeItem i its = its \<and> length (removeItem i its) = 1"
  by (simp add: removeItem_def)

theorem removeItem_single_noop_witness:
  "length default_items = 1 \<and> removeItem ''1'' default_items = default_items \<and>
   removeItem ''7'' default_items = default_items"
  using removeItem_single_noop [of default_items "''1''"]
    removeItem_single_noop [of default_items "''7''"]
  by (simp add: default_items_def defaultData_def)

text \<open>
  Claim C10. When the id matches no item of the list, \<open>removeItem\<close> (whatever the length
  of the list) and \<open>updateItem\<close> (whatever the key and the value) return the list as it
  was.
\<close>

theorem unmatched_id_noop:
  "\<forall>item\<in>set its. item_id item \<noteq> StringValue i \<Longrightarrow>
     removeItem i its = its \<and> updateItem i k v its = its"
  by (simp add: removeItem_def updateItem_def map_idI)

theorem unmatched_id_noop_witness:
  "list_all (\<lambda>item. item_id item \<noteq> StringValue ''42'') scenario_items \<and>
   removeItem ''42'' scenario_items = scenario_items \<and>
   updateItem ''42'' Price (NumberValue (Num 9)) scenario_items = scenario_items"
proof -
  have h: "\<forall>item\<in>set scenario_items. item_id item \<noteq> StringValue ''42''"
    by (simp add: scenario_items_def)
  show ?thesis
    using unmatched_id_noop [OF h, of Price "NumberValue (Num 9)"] h
    by (simp add: list_all_iff)
qed

text \<open>
  Claim C6. \<open>updateItem\<close> keeps the length and the order of the list; in an item whose id
  matches, the named field becomes the value and every other field stays; an item whose
  id does not match stays as it was.
\<close>

theorem updateItem_frame:
  "length (updateItem i k v its) = length its \<and>
   (\<forall>n<length its.
      (item_id (its ! n) = StringValue i \<longrightarrow>
         get_field k (updateItem i k v its ! n) = v \<and>
         (\<forall>g. g \<noteq> k \<longrightarrow> get_field g (updateItem i k v its ! n) = get_field g (its ! n))) \<and>
      (item_id (its ! n) \<noteq> StringValue i \<longrightarrow> updateItem i k v its ! n = its ! n))"
  by (simp add: updateItem_def get_set_same get_set_other)

theorem updateItem_frame_witness:
  "item_id (scenario_items ! 1) = StringValue ''1700000000000'' \<and>
   item_id (scenario_items ! 0) \<noteq> StringValue ''1700000000000'' \<and>
   get_field Quantity
     (updateItem ''1700000000000'' Quantity (NumberValue (Num 4)) scenario_items ! 1) =
     NumberValue (Num 4) \<and>
   get_field Price
     (updateItem ''1700000000000'' Quantity (NumberValue (Num 4)) scenario_items ! 1) =
     NumberValue (Num (21 / 2)) \<and>
   updateItem ''1700000000000'' Quantity (NumberValue (Num 4)) scenario_items ! 0 =
     scenario_items ! 0"
proof -
  have one: "1 < length scenario_items" and zero: "0 < length scenario_items"
    by (simp_all add: scenario_items_def)
  have m: "item_id (scenario_items ! 1) = StringValue ''1700000000000''"
    by (simp add: scenario_items_def)
  have u: "item_id (scenario_items ! 0) \<noteq> StringValue ''1700000000000''"
    by (simp add: scenario_items_def)
  have p: "get_field Price (scenario_items ! 1) = NumberValue (Num (21 / 2))"
    by (simp add: scenario_items_def)
  have pq: "Price \<noteq> Quantity"
    by simp
  note frame = updateItem_frame
    [of "''1700000000000''" Quantity "NumberValue (Num 4)" scenario_items]
  from frame one m have
    "get_field Quantity
       (updateItem ''1700000000000'' Quantity (NumberValue (Num 4)) scenario_items ! 1) =
       NumberValue (Num 4)"
    by blast
  moreover from frame one m pq have
    "get_field Price
       (updateItem ''1700000000000'' Quantity (NumberValue (Num 4)) scenario_items ! 1) =
       get_field Price (scenario_items ! 1)"
    by blast
  moreover from frame zero u have
    "updateItem ''1700000000000'' Quantity (NumberValue (Num 4)) scenario_items ! 0 =
       scenario_items ! 0"
    by blast
  ultimately show ?thesis using m u p by (simp only: simp_thms)
qed

section \<open>Totals\<close>

lemma subtotal_lineTotals: "subtotal its = foldl jsadd (Num 0) (map lineTotal its)"
  by (simp add: subtotal_def foldl_map lineTotal_def)

lemma schema_item_amounts:
  "schema_item item \<Longrightarrow>
     quantity item = NumberValue (Num (amount (quantity item))) \<and>
     price item = NumberValue (Num (amount (price item)))"
  by (auto simp: schema_item_def elim!: is_finite_number.elims)

lemma foldl_jsadd_exact:
  "list_all schema_item its \<Longrightarrow> exact_steps a its \<Longrightarrow>
     foldl (\<lambda>sum item. jsadd sum (jsmul (toNumber (quantity item)) (toNumber (price item))))
       (Num a) its = Num (a + spec_subtotal its)"
proof (induction its arbitrary: a)
  case Nil
  then show ?case by (simp add: spec_subtotal_def)
next
  case (Cons item its)
  from Cons.prems have qp:
    "quantity item = NumberValue (Num (amount (quantity item)))"
    "price item = NumberValue (Num (amount (price item)))"
    using schema_item_amounts [of item] by simp_all
  from Cons.prems have t: "round_double (spec_lineTotal item) = Num (spec_lineTotal item)"
    and u: "round_double (a + spec_lineTotal item) = Num (a + spec_lineTotal item)"
    and rest: "exact_steps (a + spec_lineTotal item) its" "list_all schema_item its"
    by (simp_all add: is_double_def)
  have "jsadd (Num a) (jsmul (toNumber (quantity item)) (toNumber (price item))) =
      Num (a + spec_lineTotal item)"
    using t u by (subst qp(1), subst qp(2)) (simp add: spec_lineTotal_def)
  then show ?case
    using Cons.IH [OF rest(2) rest(1)]
    by (simp add: spec_subtotal_def add.assoc)
qed

lemma zero_prices_exact:
  "\<forall>item\<in>set its. price item = NumberValue (Num 0) \<Longrightarrow> exact_steps 0 its"
  by (induction its) (simp_all add: spec_lineTotal_def is_double_zero)

lemma spec_subtotal_zero_prices:
  "\<forall>item\<in>set its. price item = NumberValue (Num 0) \<Longrightarrow> spec_subtotal its = 0"
  by (induction its) (simp_all add: spec_subtotal_def spec_lineTotal_def)

lemma subtotal_exact:
  "list_all schema_item its \<Longrightarrow> exact_steps 0 its \<Longrightarrow> subtotal its = Num (spec_subtotal its)"
  using foldl_jsadd_exact [of its 0] by (simp add: subtotal_def)

text \<open>
  No step rounds when every quantity and every price is a whole number and the
  magnitudes of the row totals add up to \<open>2^53\<close> at most.
\<close>

lemma whole_steps_exact:
  assumes "\<forall>item\<in>set its. \<exists>q p. quantity item = NumberValue (Num (of_int q)) \<and>
      price item = NumberValue (Num (of_int p))"
    and "\<bar>of_int a\<bar> + sum_list (map (\<lambda>item. \<bar>spec_lineTotal item\<bar>) its) \<le> 2 ^ 53"
  shows "exact_steps (of_int a) its"
  using assms
proof (induction its arbitrary: a)
  case Nil
  then show ?case by simp
next
  case (Cons item its)
  from Cons.prems(1) obtain q p where
    qp: "quantity item = NumberValue (Num (of_int q))" "price item = NumberValue (Num (of_int p))"
    by auto
  have t: "spec_lineTotal item = of_int (q * p)"
    by (simp add: spec_lineTotal_def qp)
  have nonneg: "0 \<le> sum_list (map (\<lambda>item. \<bar>spec_lineTotal item\<bar>) its)"
    by (rule sum_list_nonneg) auto
  from Cons.prems(2) nonneg have b: "\<bar>of_int a :: rat\<bar> + \<bar>of_int (q * p)\<bar> \<le> 2 ^ 53"
    by (simp add: t)
  have "\<bar>of_int (q * p) :: rat\<bar> \<le> 2 ^ 53"
    using b by linarith
  then have "\<bar>q * p\<bar> \<le> 2 ^ 53"
    by (metis of_int_abs of_int_le_iff of_int_numeral of_int_power)
  then have d1: "is_double (spec_lineTotal item)"
    unfolding t by (rule is_double_int)
  have "\<bar>of_int (a + q * p) :: rat\<bar> \<le> 2 ^ 53"
    using b by (simp only: of_int_add)
  then have "\<bar>a + q * p\<bar> \<le> 2 ^ 53"
    by (metis of_int_abs of_int_le_iff of_int_numeral of_int_power)
  then have "is_double (of_int (a + q * p))"
    by (rule is_double_int)
  then have d2: "is_double (of_int a + spec_lineTotal item)"
    by (simp add: t)
  have "\<bar>of_int (a + q * p) :: rat\<bar> + sum_list (map (\<lambda>item. \<bar>spec_lineTotal item\<bar>) its) \<le> 2 ^ 53"
    using Cons.prems(2) by (simp add: t)
  from Cons.IH [OF _ this] Cons.prems(1)
  have "exact_steps (of_int (a + q * p)) its" by simp
  then have "exact_steps (of_int a + spec_lineTotal item) its"
    by (simp add: t)
  with d1 d2 show ?case by simp
qed

lemma whole_amounts_subtotal:
  assumes "\<forall>item\<in>set its. \<exists>q p. quantity item = NumberValue (Num (of_int q)) \<and>
      price item = NumberValue (Num (of_int p))"
    and "sum_list (map (\<lambda>item. \<bar>spec_lineTotal item\<bar>) its) \<le> 2 ^ 53"
  shows "subtotal its = Num (spec_subtotal its)"
proof -
  have s: "list_all schema_item its"
    using assms(1) by (auto simp: list_all_iff schema_item_def)
  have "exact_steps (of_int 0) its"
    using assms(2) by (intro whole_steps_exact [OF assms(1)]) simp
  then have "exact_steps 0 its" by simp
  with s show ?thesis by (rule subtotal_exact)
qed

lemma subtotal_default_items: "subtotal default_items = Num 0"
  by (simp add: subtotal_def default_items_def defaultData_def round_double_zero)

text \<open>The price texts \<open>0.1\<close> and \<open>0.2\<close> are read as the two doubles used below.\<close>

lemma parseFloat_tenths:
  "parseFloat ''0.1'' = Num tenth \<and> parseFloat ''0.2'' = Num two_tenths"
  using round_double_tenth round_double_two_tenths
  by (simp add: parseFloat_def trimStart_def isWhiteSpace_def strDecimalLiteral_def
      unsignedDecimalLiteral_def exponentPart_def scale10_def mathInt_def
      isDecimalDigit_def radixDigit_def digitVal_def Let_def)

text \<open>
  Claim C2 says that the subtotal equals the sum of quantity times price for every item
  list. The code sums in double-precision arithmetic: for two items of quantity 1 priced
  at the doubles nearest to 0.1 and 0.2, the last addition is rounded, and the subtotal
  is the double 0.30000000000000004, not the sum of the two row totals.
\<close>

theorem subtotal_rounded:
  "list_all schema_item tenths_items \<and>
   spec_subtotal tenths_items = 10808639105689191 / 36028797018963968 \<and>
   subtotal tenths_items = Num (5404319552844596 / 18014398509481984) \<and>
   subtotal tenths_items \<noteq> Num (spec_subtotal tenths_items)"
proof -
  have s: "list_all schema_item tenths_items"
    by (simp add: tenths_items_def schema_item_def)
  have v: "spec_subtotal tenths_items = 10808639105689191 / 36028797018963968"
    by (simp add: tenths_items_def spec_subtotal_def spec_lineTotal_def tenth_def
        two_tenths_def)
  have t: "round_double tenth = Num tenth" and u: "round_double two_tenths = Num two_tenths"
    using is_double_tenth is_double_two_tenths by (simp_all add: is_double_def)
  have c: "subtotal tenths_items = Num (5404319552844596 / 18014398509481984)"
    by (simp add: subtotal_def tenths_items_def t u three_tenths_rounds)
  show ?thesis
    by (simp add: s v c)
qed

text \<open>
  Claim C2, amended. The subtotal is the sum of the row totals \<open>quantity * price\<close> taken in
  list order from 0 in double-precision arithmetic, every product and every partial sum
  rounded to the nearest double, and the TOTAL line shows what the SUBTOTAL line shows.
  On items whose quantity and price are finite numbers the subtotal equals the exact sum
  of quantity times price whenever no product and no partial sum needs rounding; in
  particular it is 0 when every price is 0, as it is for the default one-item list.
\<close>

theorem subtotal_is_sum:
  "subtotal its = foldl jsadd (Num 0) (map lineTotal its) \<and>
   SUBTOTAL (totalsBlock toFixed2 its) = toFixed2 (subtotal its) \<and>
   TOTAL (totalsBlock toFixed2 its) = SUBTOTAL (totalsBlock toFixed2 its) \<and>
   (list_all schema_item its \<and> exact_steps 0 its \<longrightarrow> subtotal its = Num (spec_subtotal its)) \<and>
   (list_all schema_item its \<and> (\<forall>item\<in>set its. price item = NumberValue (Num 0)) \<longrightarrow>
      subtotal its = Num 0) \<and>
   subtotal default_items = Num 0"
proof -
  have zero: "subtotal its = Num 0"
    if "list_all schema_item its" and "\<forall>item\<in>set its. price item = NumberValue (Num 0)"
    using that subtotal_exact [of its] zero_prices_exact [of its]
      spec_subtotal_zero_prices [of its]
    by simp
  show ?thesis
    using subtotal_exact [of its] zero subtotal_default_items
    by (auto simp: subtotal_lineTotals totalsBlock_def)
qed

theorem subtotal_is_sum_witness:
  "list_all schema_item scenario_items \<and>
   exact_steps 0 scenario_items \<and>
   spec_subtotal scenario_items = 63 / 2 \<and>
   subtotal scenario_items = Num (63 / 2) \<and>
   list_all schema_item default_items \<and>
   list_all (\<lambda>item. price item = NumberValue (Num 0)) default_items \<and>
   subtotal default_items = Num 0"
proof -
  have s: "list_all schema_item scenario_items"
    by (simp add: scenario_items_def schema_item_def)
  have h: "is_double (63 / 2)"
    unfolding is_double_def
    by (rule round_double_exact [where m = 63 and e = "- 1"]) simp_all
  have x: "exact_steps 0 scenario_items"
    by (simp add: scenario_items_def spec_lineTotal_def is_double_zero h)
  have v: "spec_subtotal scenario_items = 63 / 2"
    by (simp add: scenario_items_def spec_subtotal_def spec_lineTotal_def)
  have d: "list_all schema_item default_items"
    by (simp add: default_items_def defaultData_def schema_item_def)
  have z: "list_all (\<lambda>item. price item = NumberValue (Num 0)) default_items"
    by (simp add: default_items_def defaultData_def)
  have "subtotal scenario_items = Num (spec_subtotal scenario_items)"
    using subtotal_is_sum [of scenario_items "\<lambda>n. []"] s x by blast
  moreover have "subtotal default_items = Num 0"
    using subtotal_is_sum [of default_items "\<lambda>n. []"] d z
    unfolding list_all_iff by blast
  ultimately show ?thesis
    using s x v d z by simp
qed

section \<open>The quantity and price inputs\<close>

lemma parseInt_empty: "parseInt [] = NaN"
  by (simp add: parseInt_def trimStart_def)

lemma parseFloat_empty: "parseFloat [] = NaN"
  by (simp add: parseFloat_def trimStart_def strDecimalLiteral_def)

lemma digit_char_values:
  "digit_char 0 = CHR ''0''" "digit_char (Suc 0) = CHR ''1''" "digit_char 2 = CHR ''2''"
  "digit_char 3 = CHR ''3''" "digit_char 4 = CHR ''4''" "digit_char 5 = CHR ''5''"
  "digit_char 6 = CHR ''6''" "digit_char 7 = CHR ''7''" "digit_char 8 = CHR ''8''"
  "digit_char 9 = CHR ''9''"
  by code_simp+

lemma digitVal_digit_char: "d < 10 \<Longrightarrow> digitVal (digit_char d) = Some d"
  by (simp add: digitVal_def digit_char_def)

lemma radixDigit_digit_char: "d < 10 \<Longrightarrow> radixDigit 10 (digit_char d)"
  by (simp add: radixDigit_def digitVal_digit_char)

lemma digits_all_decimal: "\<forall>c\<in>set (digits n). radixDigit 10 c"
proof (induction n rule: digits.induct)
  case (1 n)
  show ?case
  proof (cases "n < 10")
    case True
    then show ?thesis by (simp add: digits.simps [of n] radixDigit_digit_char)
  next
    case False
    then show ?thesis
      using "1.IH" by (simp add: digits.simps [of n] radixDigit_digit_char)
  qed
qed

lemma digits_nonempty: "digits n \<noteq> []"
  by (simp add: digits.simps [of n])

lemma mathInt_snoc:
  "mathInt R (Z @ [c]) = mathInt R Z * R + (case digitVal c of Some d \<Rightarrow> d | None \<Rightarrow> 0)"
  by (simp add: mathInt_def)

lemma mathInt_digits: "mathInt 10 (digits n) = n"
proof (induction n rule: digits.induct)
  case (1 n)
  show ?case
  proof (cases "n < 10")
    case True
    then show ?thesis
      by (simp add: digits.simps [of n] mathInt_def digitVal_digit_char)
  next
    case False
    then show ?thesis
      using "1.IH" by (simp add: digits.simps [of n] mathInt_snoc digitVal_digit_char)
  qed
qed









text \<open>
  Claim C8. In the row of a matching item, a quantity text that is empty or that
  \<open>parseInt\<close> does not read as a number stores quantity 1, and a price text that is empty
  or that \<open>parseFloat\<close> does not read as a number stores price 0.
\<close>

theorem invalid_input_coerced:
  "n < length its \<Longrightarrow> item_id (its ! n) = StringValue i \<Longrightarrow>
     (txt = [] \<or> parseInt txt = NaN \<longrightarrow>
        quantity (quantityOnChange i txt its ! n) = NumberValue (Num 1)) \<and>
     (txt = [] \<or> parseFloat txt = NaN \<longrightarrow>
        price (priceOnChange i txt its ! n) = NumberValue (Num 0))"
  by (auto simp: quantityOnChange_def priceOnChange_def updateItem_nth_match or_else_def
      parseInt_empty parseFloat_empty)

theorem invalid_input_coerced_witness:
  "1 < length scenario_items \<and>
   item_id (scenario_items ! 1) = StringValue ''1700000000000'' \<and>
   parseInt ''abc'' = NaN \<and> parseFloat ''abc'' = NaN \<and>
   quantity (quantityOnChange ''1700000000000'' [] scenario_items ! 1) = NumberValue (Num 1) \<and>
   quantity (quantityOnChange ''1700000000000'' ''abc'' scenario_items ! 1) =
     NumberValue (Num 1) \<and>
   price (priceOnChange ''1700000000000'' [] scenario_items ! 1) = NumberValue (Num 0) \<and>
   price (priceOnChange ''1700000000000'' ''abc'' scenario_items ! 1) = NumberValue (Num 0)"
proof -
  have n: "1 < length scenario_items"
    by (simp add: scenario_items_def)
  have m: "item_id (scenario_items ! 1) = StringValue ''1700000000000''"
    by (simp add: scenario_items_def)
  have pi: "parseInt ''abc'' = NaN"
    by (simp add: parseInt_def trimStart_def isWhiteSpace_def radixDigit_def digitVal_def
        Let_def)
  have pf: "parseFloat ''abc'' = NaN"
    by (simp add: parseFloat_def trimStart_def isWhiteSpace_def strDecimalLiteral_def
        unsignedDecimalLiteral_def isDecimalDigit_def radixDigit_def digitVal_def Let_def)
  show ?thesis
    using invalid_input_coerced [OF n m, of "[]"] invalid_input_coerced [OF n m, of "''abc''"]
      n m pi pf
    by simp
qed




section \<open>Ids, and the length of the list under add and remove\<close>

lemma clock_text: "toString_int 1700000000000 = ''1700000000000''"
  by (simp add: toString_int_def digits.simps digit_char_values)

lemma addItem_appends_one:
  "addItem now its = its @ [last (addItem now its)] \<and>
   length (addItem now its) = Suc (length its) \<and>
   take (length its) (addItem now its) = its \<and>
   description (last (addItem now its)) = StringValue [] \<and>
   quantity (last (addItem now its)) = NumberValue (Num 1) \<and>
   price (last (addItem now its)) = NumberValue (Num 0) \<and>
   item_id (last (addItem now its)) = StringValue (toString_int now)"
  by (simp add: addItem_def)

text \<open>
  Claim C5 asks that the id of the appended item differ from every id already in the
  list. \<open>addItem\<close> does append one item with quantity 1, price 0 and an empty description
  behind the unchanged list (\<open>addItem_appends_one\<close>), but its id is the text of the clock
  reading alone: two calls at one reading give two items with one id.
\<close>

theorem addItem_reuses_id:
  "map item_id (addItem 1700000000000 (addItem 1700000000000 default_items)) =
     [StringValue ''1'', StringValue ''1700000000000'', StringValue ''1700000000000'']"
  by (simp add: addItem_def clock_text default_items_def defaultData_def)

text \<open>
  Claim C3 asks that no sequence of \<open>addItem\<close> and \<open>removeItem\<close> calls bring the list
  below one item. \<open>removeItem\<close> tests the length before it filters, and the filter drops
  every item that carries the id: from the default list, two adds at one clock reading,
  then removing the first row, then removing one of the two added rows, leaves no item.
\<close>

theorem remove_empties_list:
  "run_ops default_items
     [AddItem 1700000000000, AddItem 1700000000000, RemoveItem ''1'',
      RemoveItem ''1700000000000''] = []"
  by (simp add: run_ops_def addItem_def removeItem_def clock_text default_items_def
      defaultData_def)

text \<open>
  While the ids stay pairwise distinct the list does keep at least one item: a removal
  then drops at most one item, and it is only tried on a list of two or more.
\<close>

lemma filter_distinct_length:
  "distinct (map f xs) \<Longrightarrow> length xs \<le> Suc (length (filter (\<lambda>x. f x \<noteq> a) xs))"
proof (induction xs)
  case Nil
  then show ?case by simp
next
  case (Cons x xs)
  show ?case
  proof (cases "f x = a")
    case True
    with Cons.prems have "\<forall>y\<in>set xs. f y \<noteq> a" by (auto simp: image_iff)
    then have "filter (\<lambda>x. f x \<noteq> a) xs = xs" by simp
    with True show ?thesis by simp
  next
    case False
    with Cons show ?thesis by simp
  qed
qed

lemma removeItem_nonempty_distinct:
  "its \<noteq> [] \<Longrightarrow> distinct (map item_id its) \<Longrightarrow>
     removeItem i its \<noteq> [] \<and> distinct (map item_id (removeItem i its))"
proof -
  assume ne: "its \<noteq> []" and d: "distinct (map item_id its)"
  have "length its \<le> Suc (length (filter (\<lambda>x. item_id x \<noteq> StringValue i) its))"
    using d by (rule filter_distinct_length)
  then have "1 < length its \<Longrightarrow> filter (\<lambda>x. item_id x \<noteq> StringValue i) its \<noteq> []"
    by auto
  then show ?thesis
    using ne d by (auto simp: removeItem_def distinct_map_filter)
qed

lemma run_ops_nonempty_when_ids_fresh:
  "its \<noteq> [] \<Longrightarrow> distinct (map item_id its) \<Longrightarrow> fresh_clock its ops \<Longrightarrow>
     run_ops its ops \<noteq> [] \<and> distinct (map item_id (run_ops its ops))"
proof (induction ops arbitrary: its)
  case Nil
  then show ?case by (simp add: run_ops_def)
next
  case (Cons x ops)
  have step: "apply_op its x \<noteq> [] \<and> distinct (map item_id (apply_op its x))"
  proof (cases x)
    case (AddItem now)
    with Cons.prems show ?thesis by (simp add: addItem_def)
  next
    case (RemoveItem i)
    with Cons.prems show ?thesis by (simp add: removeItem_nonempty_distinct)
  qed
  from Cons.prems have "fresh_clock (apply_op its x) ops" by simp
  with step Cons.IH [of "apply_op its x"] show ?case by (simp add: run_ops_def)
qed

section \<open>JSON: a quoted string is read back\<close>

text \<open>
  \<open>parse_string\<close> undoes \<open>QuoteJSONString\<close>: every escape that is written is read as the
  character it stands for, so the text between the quotes is read as the string.
\<close>

lemma hex_digit_value: "d < 16 \<Longrightarrow> digitVal (hex_digit d) = Some d"
proof -
  assume "d < 16"
  then have "d \<in> {0, 1, 2, 3, 4, 5, 6, 7, 8, 9, 10, 11, 12, 13, 14, 15}"
    by (simp only: insert_iff empty_iff) arith
  then show ?thesis
    by (auto simp: hex_digit_def digitVal_def)
qed

lemma hex4_escape:
  assumes "(of_char c :: nat) < 32"
  shows "hex4 CHR ''0'' CHR ''0'' (hex_digit (of_char c div 16)) (hex_digit (of_char c mod 16)) =
    Some (of_char c)"
proof -
  have a: "(of_char c :: nat) div 16 < 16" using assms by simp
  have b: "(of_char c :: nat) mod 16 < 16" by simp
  have z: "digitVal CHR ''0'' = Some 0" by (simp add: digitVal_def)
  show ?thesis
    using hex_digit_value [OF a] hex_digit_value [OF b] z a b
    by (simp add: hex4_def radixDigit_def mathInt_def)
qed

lemma parse_string_escape:
  "parse_string (escape_char c @ rest) = cons_char c (parse_string rest)"
proof -
  consider (special) "c \<in> {CHR 0x08, CHR 0x09, CHR 0x0A, CHR 0x0C, CHR 0x0D, CHR 0x22, CHR 0x5C}"
    | (control) "c \<notin> {CHR 0x08, CHR 0x09, CHR 0x0A, CHR 0x0C, CHR 0x0D, CHR 0x22, CHR 0x5C}"
        "(of_char c :: nat) < 32"
    | (plain) "c \<notin> {CHR 0x08, CHR 0x09, CHR 0x0A, CHR 0x0C, CHR 0x0D, CHR 0x22, CHR 0x5C}"
        "\<not> (of_char c :: nat) < 32"
    by blast
  then show ?thesis
  proof cases
    case special
    then show ?thesis
      by (auto simp: escape_char_def simple_escape_def)
  next
    case control
    have "of_char c < (256::nat)" using control(2) by simp
    then show ?thesis
      using control hex4_escape [OF control(2)]
      by (simp add: escape_char_def unicode_escape_def)
  next
    case plain
    then show ?thesis
      by (simp add: escape_char_def)
  qed
qed

lemma parse_string_body:
  "parse_string (concat (map escape_char s) @ rest) =
     map_option (\<lambda>(str, r). (s @ str, r)) (parse_string rest)"
proof (induction s)
  case Nil
  then show ?case by (simp add: option.map_ident case_prod_unfold)
next
  case (Cons c s)
  show ?case
    using Cons.IH
    by (simp add: parse_string_escape cons_char_def option.map_comp comp_def case_prod_unfold)
qed

lemma parse_string_quoted:
  "parse_string (concat (map escape_char s) @ CHR 0x22 # rest) = Some (s, rest)"
  by (simp add: parse_string_body)

lemma quote_parse:
  "QuoteJSONString s @ rest = CHR 0x22 # concat (map escape_char s) @ CHR 0x22 # rest"
  by (simp add: QuoteJSONString_def)

section \<open>JSON: a number is read back\<close>

subsection \<open>The digits of a natural number\<close>

text \<open>The digits of a positive number start with a digit other than 0.\<close>

lemma digit_char_nonzero: "0 < d \<Longrightarrow> d < 10 \<Longrightarrow> digit_char d \<noteq> CHR ''0''"
proof
  assume d: "0 < d" "d < 10" and eq: "digit_char d = CHR ''0''"
  have "digitVal (digit_char d) = Some d" using d by (simp add: digitVal_digit_char)
  moreover have "digitVal CHR ''0'' = Some 0" by (simp add: digitVal_def)
  ultimately show False using d eq by simp
qed

lemma digits_hd_nonzero: "0 < s \<Longrightarrow> hd (digits s) \<noteq> CHR ''0''"
proof (induction s rule: digits.induct)
  case (1 n)
  show ?case
  proof (cases "n < 10")
    case True
    with "1.prems" show ?thesis
      by (simp add: digits.simps [of n] digit_char_nonzero)
  next
    case False
    then have "0 < n div 10" by simp
    with "1.IH" False have "hd (digits (n div 10)) \<noteq> CHR ''0''" by simp
    with False show ?thesis
      by (simp add: digits.simps [of n] digits_nonempty)
  qed
qed

lemma digits_bounds:
  "0 < s \<Longrightarrow> 10 ^ (length (digits s) - 1) \<le> s \<and> s < 10 ^ length (digits s)"
proof (induction s rule: digits.induct)
  case (1 n)
  show ?case
  proof (cases "n < 10")
    case True
    with "1.prems" show ?thesis
      by (simp add: digits.simps [of n])
  next
    case False
    then have pos: "0 < n div 10" by simp
    define L where "L = length (digits (n div 10))"
    have L1: "1 \<le> L"
      using digits_nonempty [of "n div 10"] by (cases "digits (n div 10)") (simp_all add: L_def)
    from "1.IH" False pos have ih: "10 ^ (L - 1) \<le> n div 10" "n div 10 < 10 ^ L"
      by (simp_all add: L_def)
    have len: "length (digits n) = Suc L"
      using False by (simp add: digits.simps [of n] L_def)
    have "10 ^ L = 10 * 10 ^ (L - 1)"
      using L1 by (cases L) simp_all
    also have "\<dots> \<le> 10 * (n div 10)"
      using ih(1) by simp
    also have "\<dots> \<le> n"
      by simp
    finally have lo: "10 ^ L \<le> n" .
    have "n < 10 * (n div 10 + 1)"
      by arith
    also have "\<dots> \<le> 10 * 10 ^ L"
      using ih(2) by simp
    finally have hi: "n < 10 ^ Suc L" by simp
    show ?thesis
      using lo hi by (simp add: len)
  qed
qed

lemma digits_length_unique:
  assumes lo: "10 ^ (k - 1) \<le> s" and hi: "s < 10 ^ k"
  shows "length (digits s) = k"
proof -
  have pos: "0 < s"
    using lo by (rule less_le_trans [rotated]) simp
  define L where "L = length (digits s)"
  from digits_bounds [OF pos] have b: "10 ^ (L - 1) \<le> s" "s < 10 ^ L"
    by (simp_all add: L_def)
  have "(10::nat) ^ (k - 1) < 10 ^ L"
    using lo b(2) by (rule le_less_trans)
  then have 1: "k - 1 < L" by simp
  have "(10::nat) ^ (L - 1) < 10 ^ k"
    using b(1) hi by (rule le_less_trans)
  then have 2: "L - 1 < k" by simp
  have "k \<noteq> 0"
  proof
    assume "k = 0"
    with lo hi show False by simp
  qed
  with 1 2 show ?thesis
    unfolding L_def by arith
qed

subsection \<open>The digits that \<open>Number::toString\<close> chooses denote the number\<close>

text \<open>
  Whatever digits \<open>shortest_digits\<close> settles on, the decimal they write rounds to the
  double: a candidate is taken only when \<open>accepts\<close> holds of it, and the exact expansion,
  which every double has within 1074 decimal places, is the double itself.
\<close>

lemma closer_cases: "closer x k c d = c \<or> closer x k c d = d"
  by (simp add: closer_def Let_def)

lemma foldl_closer_mem: "foldl (closer x k) c cs \<in> set (c # cs)"
proof (induction cs arbitrary: c)
  case Nil
  then show ?case by simp
next
  case (Cons d cs)
  from Cons.IH [of "closer x k c d"] closer_cases [of x k c d]
  show ?case by auto
qed

lemma best_candidate_accepts:
  assumes "best_candidate x n0 k = Some c"
  shows "accepts x k c"
proof -
  define lo where "lo = nat \<lfloor>x / 10 powi (n0 - int k)\<rfloor>"
  define cands where "cands = filter (accepts x k) [(lo, n0), (lo + 1, n0), (10 ^ (k - 1), n0 + 1)]"
  have eq: "best_candidate x n0 k =
      (case cands of [] \<Rightarrow> None | c0 # cs \<Rightarrow> Some (foldl (closer x k) c0 cs))"
    by (simp only: best_candidate_def Let_def cands_def lo_def)
  from assms obtain c0 cs where cs: "cands = c0 # cs" and c: "c = foldl (closer x k) c0 cs"
    unfolding eq by (cases cands) auto
  have "c \<in> set cands"
    unfolding cs c by (rule foldl_closer_mem)
  then show ?thesis
    by (simp only: cands_def set_filter mem_Collect_eq)
qed

lemma search_digits_accepts:
  "search_digits x n0 ks = Some c \<Longrightarrow> \<exists>k. accepts x k c"
proof (induction ks)
  case Nil
  then show ?case by simp
next
  case (Cons k ks)
  then show ?case
    by (auto split: option.splits dest: best_candidate_accepts)
qed

lemma accepts_good:
  assumes "accepts x k c"
  shows "0 < fst c \<and>
    round_double (of_nat (fst c) * 10 powi (snd c - int (length (digits (fst c))))) = Num x"
proof -
  from assms have lo: "10 ^ (k - 1) \<le> fst c" and hi: "fst c < 10 ^ k"
    and r: "round_double (of_nat (fst c) * 10 powi (snd c - int k)) = Num x"
    by (simp_all add: accepts_def candidate_value_def)
  have "length (digits (fst c)) = k"
    using lo hi by (rule digits_length_unique)
  moreover have "0 < fst c"
    using lo by (rule less_le_trans [rotated]) simp
  ultimately show ?thesis
    using r by simp
qed

lemma is_integer_of_int: "is_integer (of_int z)"
  by (simp add: is_integer_def)

lemma find_scale_sound:
  "find_scale f j x = Some j' \<Longrightarrow> is_integer (x * 10 ^ j')"
  by (induction f arbitrary: j) (auto split: if_splits)

lemma find_scale_finds:
  "is_integer (x * 10 ^ (j + d)) \<Longrightarrow> d \<le> f \<Longrightarrow> \<exists>j'. find_scale f j x = Some j'"
proof (induction f arbitrary: j d)
  case 0
  then show ?case by simp
next
  case (Suc f)
  show ?case
  proof (cases "is_integer (x * 10 ^ j)")
    case True
    then show ?thesis by simp
  next
    case False
    with Suc.prems have "d \<noteq> 0" by (cases d) auto
    then obtain d' where d: "d = Suc d'" by (cases d) auto
    with Suc.prems have "is_integer (x * 10 ^ (Suc j + d'))" "d' \<le> f" by simp_all
    from Suc.IH [OF this] False show ?thesis by simp
  qed
qed

lemma scaled_integer:
  assumes "- int N \<le> e"
  shows "is_integer (of_int m * 2 powi e * 10 ^ N)"
proof -
  have "(10::rat) ^ N = 2 ^ N * 5 ^ N"
    by (simp flip: power_mult_distrib)
  then have "of_int m * 2 powi e * (10::rat) ^ N = of_int m * (2 powi e * 2 powi int N) * 5 ^ N"
    by simp
  also have "2 powi e * (2::rat) powi int N = 2 powi (e + int N)"
    by (simp add: power_int_add)
  also have "\<dots> = 2 ^ nat (e + int N)"
    using assms by (simp add: power_int_def)
  finally have "of_int m * 2 powi e * (10::rat) ^ N = of_int (m * 2 ^ nat (e + int N) * 5 ^ N)"
    by simp
  then show ?thesis
    by (simp only: is_integer_of_int)
qed

lemma double_magnitude_form:
  assumes "0 < x" and "round_double x = Num x"
  shows "x = of_int (round_half_even (x / 2 powi exponent_of 2045 x)) * 2 powi exponent_of 2045 x"
proof -
  from assms have "round_magnitude x = x"
    by (simp add: round_double_def Let_def split: if_splits)
  then show ?thesis
    by (simp add: round_magnitude_def Let_def)
qed

lemma double_scaled_integer:
  assumes "0 < x" and "round_double x = Num x"
  shows "is_integer (x * 10 ^ 1074)"
proof -
  have "- int 1074 \<le> exponent_of 2045 x"
    using exponent_of_lower [of 2045 x] by simp
  from scaled_integer [OF this]
  have "is_integer (of_int (round_half_even (x / 2 powi exponent_of 2045 x)) *
      2 powi exponent_of 2045 x * 10 ^ 1074)" .
  then show ?thesis
    by (simp only: double_magnitude_form [OF assms, symmetric])
qed

lemma exact_digits_good:
  assumes pos: "0 < x" and dbl: "round_double x = Num x"
  shows "0 < fst (exact_digits x) \<and>
    round_double (of_nat (fst (exact_digits x)) *
      10 powi (snd (exact_digits x) - int (length (digits (fst (exact_digits x)))))) = Num x"
proof -
  have "is_integer (x * 10 ^ (0 + 1074))"
    using double_scaled_integer [OF assms] by (simp only: add_0)
  from find_scale_finds [OF this order_refl] obtain j where j: "find_scale 1074 0 x = Some j"
    by blast
  then have int: "is_integer (x * 10 ^ j)"
    by (rule find_scale_sound)
  define q where "q = x * 10 ^ j"
  define s where "s = nat \<lfloor>q\<rfloor>"
  have qpos: "0 < q" using pos by (simp add: q_def)
  have q: "of_int \<lfloor>q\<rfloor> = q" using int by (simp add: is_integer_def q_def)
  have "0 < \<lfloor>q\<rfloor>"
    using qpos q by (metis of_int_0_less_iff)
  then have s: "0 < s" and os: "(of_nat s :: rat) = q"
    using q by (simp_all add: s_def)
  have e: "exact_digits x = (s, int (length (digits s)) - int j)"
    by (simp add: exact_digits_def j Let_def s_def q_def)
  have "of_nat s * 10 powi (- int j) = x"
    by (simp add: os q_def power_int_minus field_simps)
  then show ?thesis
    using s dbl by (simp add: e)
qed

lemma shortest_digits_good:
  assumes "0 < x" and "round_double x = Num x"
  shows "0 < fst (shortest_digits x) \<and>
    round_double (of_nat (fst (shortest_digits x)) *
      10 powi (snd (shortest_digits x) - int (length (digits (fst (shortest_digits x)))))) = Num x"
proof (cases "search_digits x (decimal_exponent 632 x)
    [1, 2, 3, 4, 5, 6, 7, 8, 9, 10, 11, 12, 13, 14, 15, 16, 17]")
  case None
  then have "shortest_digits x = exact_digits x"
    by (simp add: shortest_digits_def)
  with exact_digits_good [OF assms] show ?thesis by simp
next
  case (Some c)
  then have "shortest_digits x = c"
    by (simp add: shortest_digits_def)
  moreover from search_digits_accepts [OF Some] obtain k where "accepts x k c" ..
  ultimately show ?thesis
    using accepts_good by simp
qed

subsection \<open>The parts of a number text\<close>

text \<open>
  The scanner of \<open>json_unsigned\<close> on a text made of an integer part, a fraction and an
  exponent, followed by a delimiter or the end of the text.
\<close>

lemma delimiter_chars:
  "\<not> isDecimalDigit CHR '',''" "\<not> isDecimalDigit CHR '']''" "\<not> isDecimalDigit CHR ''}''"
  "\<not> isDecimalDigit CHR ''.''" "\<not> isDecimalDigit CHR ''e''" "\<not> isDecimalDigit CHR ''E''"
  "\<not> isDecimalDigit CHR ''-''" "\<not> isDecimalDigit CHR ''+''"
  by (simp_all add: isDecimalDigit_def radixDigit_def digitVal_def)

lemma delimited_not_digit: "delimited rest \<Longrightarrow> rest = [] \<or> \<not> isDecimalDigit (hd rest)"
  using delimiter_chars by (auto simp: delimited_def)

lemma takeWhile_digits_end:
  assumes "\<forall>c\<in>set ds. isDecimalDigit c" and "rest = [] \<or> \<not> isDecimalDigit (hd rest)"
  shows "takeWhile isDecimalDigit (ds @ rest) = ds"
    and "dropWhile isDecimalDigit (ds @ rest) = rest"
proof -
  from assms(2) have t: "takeWhile isDecimalDigit rest = []"
    and d: "dropWhile isDecimalDigit rest = rest"
    by (cases rest; simp)+
  from assms(1) show "takeWhile isDecimalDigit (ds @ rest) = ds"
    by (simp add: takeWhile_append2 t)
  from assms(1) show "dropWhile isDecimalDigit (ds @ rest) = rest"
    by (simp add: dropWhile_append2 d)
qed

lemma digits_all_isDecimalDigit: "\<forall>c\<in>set (digits n). isDecimalDigit c"
  using digits_all_decimal by (simp add: isDecimalDigit_def)

lemma mathInt_append:
  "mathInt R (xs @ ys) = mathInt R xs * R ^ length ys + mathInt R ys"
proof (induction ys rule: rev_induct)
  case Nil
  then show ?case by (simp add: mathInt_def)
next
  case (snoc y ys)
  have "mathInt R (xs @ ys @ [y]) = mathInt R ((xs @ ys) @ [y])" by simp
  also have "\<dots> = mathInt R (xs @ ys) * R + (case digitVal y of Some d \<Rightarrow> d | None \<Rightarrow> 0)"
    by (rule mathInt_snoc)
  finally show ?case
    using snoc.IH by (simp add: mathInt_snoc algebra_simps)
qed

lemma mathInt_zeros: "mathInt 10 (replicate z CHR ''0'') = 0"
  by (induction z) (simp_all add: mathInt_def digitVal_def replicate_append_same [symmetric]
      del: replicate_append_same)

lemma scale10_powi: "scale10 m e = m * 10 powi e"
  by (simp add: scale10_def power_int_def field_simps)

lemma json_exponent_none: "delimited rest \<Longrightarrow> json_exponent rest = Some (0, rest)"
  by (cases rest) (auto simp: json_exponent_def delimited_def)

lemma json_exponent_some:
  assumes "delimited rest" and "sign = CHR ''+'' \<or> sign = CHR ''-''"
  shows "json_exponent (CHR ''e'' # sign # digits a @ rest) =
    Some (if sign = CHR ''-'' then - int a else int a, rest)"
proof -
  note e = takeWhile_digits_end [OF digits_all_isDecimalDigit delimited_not_digit [OF assms(1)]]
  show ?thesis
    using assms(2) digits_nonempty [of a]
    by (auto simp: json_exponent_def Let_def e mathInt_digits)
qed

lemma json_int_part_digits:
  assumes "ip \<noteq> []" "\<forall>c\<in>set ip. isDecimalDigit c" "hd ip \<noteq> CHR ''0'' \<or> ip = ''0''"
    and "tail = [] \<or> \<not> isDecimalDigit (hd tail)"
  shows "json_int_part (ip @ tail) = Some (ip, tail)"
proof -
  obtain c ip' where c: "ip = c # ip'" using assms(1) by (cases ip) auto
  have cd: "isDecimalDigit c" and ip'd: "\<forall>c\<in>set ip'. isDecimalDigit c"
    using assms(2) c by simp_all
  note t = takeWhile_digits_end [OF ip'd assms(4)]
  show ?thesis
    using assms(3) cd
    by (auto simp: json_int_part_def c t simp del: takeWhile_append dropWhile_append)
qed

lemma json_frac_part_none:
  "r = [] \<or> hd r \<noteq> CHR ''.'' \<Longrightarrow> json_frac_part r = Some ([], r)"
  by (auto simp: json_frac_part_def)

lemma json_frac_part_digits:
  assumes "fp \<noteq> []" "\<forall>c\<in>set fp. isDecimalDigit c"
    and "r = [] \<or> \<not> isDecimalDigit (hd r)"
  shows "json_frac_part (CHR ''.'' # fp @ r) = Some (fp, r)"
  using assms(1) takeWhile_digits_end [OF assms(2) assms(3)]
  by (simp add: json_frac_part_def Let_def del: takeWhile_append dropWhile_append)

lemma json_unsigned_parts:
  assumes ip: "ip \<noteq> []" "\<forall>c\<in>set ip. isDecimalDigit c" "hd ip \<noteq> CHR ''0'' \<or> ip = ''0''"
    and fp: "\<forall>c\<in>set fp. isDecimalDigit c"
    and ex: "json_exponent (ex @ rest) = Some (e, rest)"
    and stop: "ex @ rest = [] \<or>
      (\<not> isDecimalDigit (hd (ex @ rest)) \<and> hd (ex @ rest) \<noteq> CHR ''.'')"
  shows "json_unsigned (ip @ (if fp = [] then [] else CHR ''.'' # fp) @ ex @ rest) =
    Some (round_double
      (scale10 (of_nat (mathInt 10 ip) + of_nat (mathInt 10 fp) / 10 ^ length fp) e), rest)"
proof (cases "fp = []")
  case True
  have "json_int_part (ip @ ex @ rest) = Some (ip, ex @ rest)"
    using ip stop by (intro json_int_part_digits) auto
  moreover have "json_frac_part (ex @ rest) = Some ([], ex @ rest)"
    using stop by (intro json_frac_part_none) auto
  ultimately show ?thesis
    using True ex by (simp add: json_unsigned_def)
next
  case False
  have "json_int_part (ip @ CHR ''.'' # fp @ ex @ rest) = Some (ip, CHR ''.'' # fp @ ex @ rest)"
    using ip delimiter_chars(4) by (intro json_int_part_digits) auto
  moreover have "json_frac_part (CHR ''.'' # fp @ ex @ rest) = Some (fp, ex @ rest)"
    using False fp stop by (intro json_frac_part_digits) auto
  ultimately show ?thesis
    using False ex by (simp add: json_unsigned_def)
qed

subsection \<open>The four layouts\<close>

text \<open>
  Each of the four layouts of \<open>format_number\<close> is read by \<open>json_unsigned\<close> as the double
  nearest to \<open>s * 10^(n-k)\<close>.
\<close>

lemma delimited_stop:
  "delimited rest \<Longrightarrow> rest = [] \<or> (\<not> isDecimalDigit (hd rest) \<and> hd rest \<noteq> CHR ''.'')"
  using delimiter_chars by (auto simp: delimited_def)

lemma zero_is_digit: "isDecimalDigit CHR ''0''"
  by (simp add: isDecimalDigit_def radixDigit_def digitVal_def)

lemma div_pow10: "(x::rat) / 10 ^ j = x * 10 powi (- int j)"
  by (simp add: power_int_minus field_simps)

lemma powi_nat: "0 \<le> e \<Longrightarrow> (10::rat) powi e = 10 ^ nat e"
  by (simp add: power_int_def)

lemma powi_combine: "(x::rat) * 10 powi a * 10 powi b = x * 10 powi (a + b)"
  by (simp add: power_int_add)

lemma mathInt_nil: "mathInt R [] = 0"
  by (simp add: mathInt_def)

lemma no_exponent:
  assumes "delimited rest"
  shows "json_exponent ([] @ rest) = Some (0, rest)"
    and "[] @ rest = [] \<or> (\<not> isDecimalDigit (hd ([] @ rest)) \<and> hd ([] @ rest) \<noteq> CHR ''.'')"
  using assms delimited_stop [OF assms] by (simp_all add: json_exponent_none)

lemma format_integer:
  assumes s: "0 < s" and rest: "delimited rest"
    and n: "int (length (digits s)) \<le> n"
  shows "json_unsigned ((digits s @ replicate (nat (n - int (length (digits s)))) CHR ''0'') @ rest) =
    Some (round_double (of_nat s * 10 powi (n - int (length (digits s)))), rest)"
proof -
  define ds where "ds = digits s"
  define ip where "ip = ds @ replicate (nat (n - int (length ds))) CHR ''0''"
  have ne: "ip \<noteq> []"
    using digits_nonempty [of s] by (simp add: ip_def ds_def)
  have dig: "\<forall>c\<in>set ip. isDecimalDigit c"
    using digits_all_isDecimalDigit [of s] zero_is_digit by (auto simp: ip_def ds_def)
  have hd: "hd ip \<noteq> CHR ''0'' \<or> ip = ''0''"
    using digits_hd_nonzero [OF s] digits_nonempty [of s] by (simp add: ip_def ds_def)
  have fp: "\<forall>c\<in>set ([]::string). isDecimalDigit c" by simp
  have m: "mathInt 10 ip = s * 10 ^ nat (n - int (length ds))"
    by (simp add: ip_def mathInt_append mathInt_zeros mathInt_digits ds_def)
  have "(of_nat (s * 10 ^ nat (n - int (length ds))) :: rat) =
      of_nat s * 10 powi (n - int (length ds))"
    using n by (simp add: ds_def powi_nat)
  then have v: "scale10 (of_nat (mathInt 10 ip) +
      of_nat (mathInt 10 []) / 10 ^ length ([]::string)) 0 =
      of_nat s * 10 powi (n - int (length ds))"
    by (simp add: m mathInt_nil scale10_powi)
  have t: "ip @ rest = ip @ (if ([]::string) = [] then [] else CHR ''.'' # []) @ [] @ rest"
    by simp
  show ?thesis
    unfolding ds_def [symmetric] ip_def [symmetric] t
    using json_unsigned_parts [OF ne dig hd fp no_exponent [OF rest]]
    by (simp only: v)
qed

lemma format_fraction:
  assumes s: "0 < s" and rest: "delimited rest"
    and n: "0 < n" "n < int (length (digits s))"
  shows "json_unsigned ((take (nat n) (digits s) @ CHR ''.'' # drop (nat n) (digits s)) @ rest) =
    Some (round_double (of_nat s * 10 powi (n - int (length (digits s)))), rest)"
proof -
  define ds where "ds = digits s"
  define ip where "ip = take (nat n) ds"
  define fp where "fp = drop (nat n) ds"
  have split: "ds = ip @ fp" by (simp add: ip_def fp_def)
  have ne: "ip \<noteq> []" using n digits_nonempty [of s] by (simp add: ip_def ds_def)
  have fne: "fp \<noteq> []" using n by (simp add: fp_def ds_def)
  have dig: "\<forall>c\<in>set ip. isDecimalDigit c" and fdig: "\<forall>c\<in>set fp. isDecimalDigit c"
    using digits_all_isDecimalDigit [of s]
    by (auto simp: ip_def fp_def ds_def dest: in_set_takeD in_set_dropD)
  have "hd ip = hd ds" using n by (simp add: ip_def)
  then have hd: "hd ip \<noteq> CHR ''0'' \<or> ip = ''0''"
    using digits_hd_nonzero [OF s] by (simp add: ds_def)
  have len: "int (length fp) = int (length ds) - n"
    using n by (simp add: fp_def ds_def)
  have "s = mathInt 10 ip * 10 ^ length fp + mathInt 10 fp"
    using mathInt_append [of 10 ip fp] mathInt_digits [of s] by (simp add: split [symmetric] ds_def)
  then have "(of_nat s :: rat) = of_nat (mathInt 10 ip) * 10 ^ length fp + of_nat (mathInt 10 fp)"
    by (metis of_nat_add of_nat_mult of_nat_numeral of_nat_power)
  then have "of_nat (mathInt 10 ip) + of_nat (mathInt 10 fp) / 10 ^ length fp =
      (of_nat s :: rat) / 10 ^ length fp"
    by (simp add: field_simps)
  also have "\<dots> = of_nat s * 10 powi (n - int (length ds))"
    by (simp add: div_pow10 len)
  finally have v: "scale10 (of_nat (mathInt 10 ip) + of_nat (mathInt 10 fp) / 10 ^ length fp) 0 =
      (of_nat s :: rat) * 10 powi (n - int (length ds))"
    by (simp add: scale10_powi)
  have t: "(ip @ CHR ''.'' # fp) @ rest = ip @ (if fp = [] then [] else CHR ''.'' # fp) @ [] @ rest"
    using fne by simp
  show ?thesis
    unfolding ds_def [symmetric] ip_def [symmetric] fp_def [symmetric] t
    using json_unsigned_parts [OF ne dig hd fdig no_exponent [OF rest]]
    by (simp only: v)
qed

lemma format_small:
  assumes s: "0 < s" and rest: "delimited rest" and n: "n \<le> 0"
  shows "json_unsigned ((''0.'' @ replicate (nat (- n)) CHR ''0'' @ digits s) @ rest) =
    Some (round_double (of_nat s * 10 powi (n - int (length (digits s)))), rest)"
proof -
  define ds where "ds = digits s"
  define fp where "fp = replicate (nat (- n)) CHR ''0'' @ ds"
  have fne: "fp \<noteq> []" using digits_nonempty [of s] by (simp add: fp_def ds_def)
  have fdig: "\<forall>c\<in>set fp. isDecimalDigit c"
    using digits_all_isDecimalDigit [of s] zero_is_digit by (auto simp: fp_def ds_def)
  have ne: "''0'' \<noteq> []" and dig: "\<forall>c\<in>set ''0''. isDecimalDigit c"
    and hd: "hd ''0'' \<noteq> CHR ''0'' \<or> ''0'' = ''0''"
    using zero_is_digit by simp_all
  have z: "mathInt 10 ''0'' = 0" by (simp add: mathInt_def digitVal_def)
  have m: "mathInt 10 fp = s"
    by (simp add: fp_def mathInt_append mathInt_zeros mathInt_digits ds_def)
  have len: "int (length fp) = int (length ds) - n"
    using n by (simp add: fp_def)
  have "(of_nat s :: rat) / 10 ^ length fp = of_nat s * 10 powi (n - int (length ds))"
    by (simp add: div_pow10 len)
  then have v: "scale10 (of_nat (mathInt 10 ''0'') + of_nat (mathInt 10 fp) / 10 ^ length fp) 0 =
      (of_nat s :: rat) * 10 powi (n - int (length ds))"
    by (simp add: z m scale10_powi)
  have t: "(''0.'' @ fp) @ rest = ''0'' @ (if fp = [] then [] else CHR ''.'' # fp) @ [] @ rest"
    using fne by simp
  show ?thesis
    unfolding ds_def [symmetric] fp_def [symmetric] t
    using json_unsigned_parts [OF ne dig hd fdig no_exponent [OF rest]]
    by (simp only: v)
qed

lemma format_exponent:
  assumes s: "0 < s" and rest: "delimited rest"
  shows "json_unsigned
     ((if int (length (digits s)) = 1 then
         digits s @ CHR ''e'' # (if n - 1 < 0 then CHR ''-'' else CHR ''+'') # digits (nat \<bar>n - 1\<bar>)
       else hd (digits s) # CHR ''.'' # tl (digits s) @
         CHR ''e'' # (if n - 1 < 0 then CHR ''-'' else CHR ''+'') # digits (nat \<bar>n - 1\<bar>)) @ rest) =
    Some (round_double (of_nat s * 10 powi (n - int (length (digits s)))), rest)"
proof -
  define ds where "ds = digits s"
  define e where "e = n - 1"
  define ex where "ex = CHR ''e'' # (if e < 0 then CHR ''-'' else CHR ''+'') # digits (nat \<bar>e\<bar>)"
  obtain c fp where c: "ds = c # fp"
    using digits_nonempty [of s] by (cases ds) (auto simp: ds_def)
  have ne: "[c] \<noteq> []" and dig: "\<forall>x\<in>set [c]. isDecimalDigit x"
    and fdig: "\<forall>x\<in>set fp. isDecimalDigit x"
    using digits_all_isDecimalDigit [of s] by (simp_all add: ds_def [symmetric] c)
  have hd: "hd [c] \<noteq> CHR ''0'' \<or> [c] = ''0''"
    using digits_hd_nonzero [OF s] by (simp add: ds_def [symmetric] c)
  have exv: "json_exponent (ex @ rest) = Some (e, rest)"
    using json_exponent_some [OF rest, of "if e < 0 then CHR ''-'' else CHR ''+''" "nat \<bar>e\<bar>"]
    by (auto simp: ex_def)
  have stop: "ex @ rest = [] \<or> (\<not> isDecimalDigit (hd (ex @ rest)) \<and> hd (ex @ rest) \<noteq> CHR ''.'')"
    using delimiter_chars by (simp add: ex_def)
  have "s = mathInt 10 [c] * 10 ^ length fp + mathInt 10 fp"
    using mathInt_append [of 10 "[c]" fp] mathInt_digits [of s] by (simp add: ds_def [symmetric] c)
  then have "(of_nat s :: rat) = of_nat (mathInt 10 [c]) * 10 ^ length fp + of_nat (mathInt 10 fp)"
    by (metis of_nat_add of_nat_mult of_nat_numeral of_nat_power)
  then have "of_nat (mathInt 10 [c]) + of_nat (mathInt 10 fp) / 10 ^ length fp =
      (of_nat s :: rat) / 10 ^ length fp"
    by (simp add: field_simps)
  then have "scale10 (of_nat (mathInt 10 [c]) + of_nat (mathInt 10 fp) / 10 ^ length fp) e =
      (of_nat s :: rat) * 10 powi (- int (length fp)) * 10 powi e"
    by (simp add: scale10_powi div_pow10)
  also have "\<dots> = of_nat s * 10 powi (- int (length fp) + e)"
    by (rule powi_combine)
  also have "- int (length fp) + e = n - int (length ds)"
    by (simp add: c e_def)
  finally have v: "scale10 (of_nat (mathInt 10 [c]) + of_nat (mathInt 10 fp) / 10 ^ length fp) e =
      (of_nat s :: rat) * 10 powi (n - int (length ds))" .
  have t: "(if int (length ds) = 1 then ds @ ex else hd ds # CHR ''.'' # tl ds @ ex) @ rest =
      [c] @ (if fp = [] then [] else CHR ''.'' # fp) @ ex @ rest"
    by (cases "fp = []") (simp_all add: c)
  show ?thesis
    unfolding ds_def [symmetric] e_def [symmetric] ex_def [symmetric] t
    using json_unsigned_parts [OF ne dig hd fdig exv stop]
    by (simp only: v)
qed

lemma format_number_parse:
  assumes s: "0 < s" and rest: "delimited rest"
  shows "json_unsigned (format_number (digits s) n @ rest) =
    Some (round_double (of_nat s * 10 powi (n - int (length (digits s)))), rest)"
proof -
  define k where "k = int (length (digits s))"
  consider (a) "k \<le> n \<and> n \<le> 21"
    | (b) "\<not> (k \<le> n \<and> n \<le> 21)" "0 < n \<and> n \<le> 21"
    | (c) "\<not> (k \<le> n \<and> n \<le> 21)" "\<not> (0 < n \<and> n \<le> 21)" "- 6 < n \<and> n \<le> 0"
    | (d) "\<not> (k \<le> n \<and> n \<le> 21)" "\<not> (0 < n \<and> n \<le> 21)" "\<not> (- 6 < n \<and> n \<le> 0)"
    by blast
  then show ?thesis
  proof cases
    case a
    have f: "format_number (digits s) n =
        digits s @ replicate (nat (n - int (length (digits s)))) CHR ''0''"
      unfolding format_number_def Let_def k_def [symmetric] by (simp only: a simp_thms if_True)
    show ?thesis
      unfolding f using a by (intro format_integer [OF s rest]) (simp add: k_def)
  next
    case b
    have f: "format_number (digits s) n =
        take (nat n) (digits s) @ CHR ''.'' # drop (nat n) (digits s)"
      using b unfolding format_number_def Let_def k_def [symmetric] by auto
    show ?thesis
      unfolding f using b by (intro format_fraction [OF s rest]) (auto simp: k_def)
  next
    case c
    have f: "format_number (digits s) n =
        ''0.'' @ replicate (nat (- n)) CHR ''0'' @ digits s"
      using c unfolding format_number_def Let_def k_def [symmetric] by auto
    show ?thesis
      unfolding f using c by (intro format_small [OF s rest]) simp
  next
    case d
    have f: "format_number (digits s) n =
        (if int (length (digits s)) = 1 then
           digits s @ CHR ''e'' # (if n - 1 < 0 then CHR ''-'' else CHR ''+'') #
             digits (nat \<bar>n - 1\<bar>)
         else hd (digits s) # CHR ''.'' # tl (digits s) @
           CHR ''e'' # (if n - 1 < 0 then CHR ''-'' else CHR ''+'') # digits (nat \<bar>n - 1\<bar>))"
      using d unfolding format_number_def Let_def k_def [symmetric] by auto
    show ?thesis
      unfolding f by (rule format_exponent [OF s rest])
  qed
qed

subsection \<open>The text of a double\<close>

text \<open>
  Hence the text that \<open>Number::toString\<close> gives for a finite double is read back as that
  double, and it starts with a digit or a minus sign.
\<close>

lemma json_unsigned_starts:
  "json_unsigned t = Some x \<Longrightarrow> t \<noteq> [] \<and> isDecimalDigit (hd t)"
  by (cases t) (auto simp: json_unsigned_def json_int_part_def split: if_splits)

lemma json_unsigned_zero:
  assumes "delimited rest"
  shows "json_unsigned (''0'' @ rest) = Some (Num 0, rest)"
proof -
  have ne: "''0'' \<noteq> []" and dig: "\<forall>c\<in>set ''0''. isDecimalDigit c"
    and hd: "hd ''0'' \<noteq> CHR ''0'' \<or> ''0'' = ''0''"
    and fp: "\<forall>c\<in>set ([]::string). isDecimalDigit c"
    using zero_is_digit by simp_all
  have v: "scale10 (of_nat (mathInt 10 ''0'') +
      of_nat (mathInt 10 []) / 10 ^ length ([]::string)) 0 = 0"
    by (simp add: mathInt_def digitVal_def scale10_powi)
  have t: "''0'' @ rest = ''0'' @ (if ([]::string) = [] then [] else CHR ''.'' # []) @ [] @ rest"
    by simp
  show ?thesis
    unfolding t
    using json_unsigned_parts [OF ne dig hd fp no_exponent [OF assms]]
    by (simp only: v round_double_zero)
qed

lemma is_double_minus:
  assumes "is_double r" and "r < 0"
  shows "is_double (- r)"
proof -
  define v where "v = round_magnitude \<bar>r\<bar>"
  from assms have "\<not> double_limit \<le> v" and "- v = r"
    by (auto simp: is_double_def round_double_def Let_def v_def split: if_splits)
  moreover have "\<bar>- r\<bar> = \<bar>r\<bar>" by simp
  moreover have "\<not> - r < 0" using assms(2) by simp
  ultimately show ?thesis
    unfolding is_double_def round_double_def Let_def v_def by auto
qed

lemma positive_round_trip:
  assumes x: "0 < x" "is_double x" and rest: "delimited rest"
  shows "json_unsigned (positive_toString x @ rest) = Some (Num x, rest)"
proof -
  obtain s n where sn: "shortest_digits x = (s, n)" by (cases "shortest_digits x")
  from shortest_digits_good [OF x(1)] x(2)
  have s: "0 < s" and v: "round_double (of_nat s * 10 powi (n - int (length (digits s)))) = Num x"
    by (simp_all add: sn is_double_def)
  show ?thesis
    using format_number_parse [OF s rest, of n] by (simp add: positive_toString_def sn v)
qed

lemma number_round_trip:
  assumes r: "is_double r" and rest: "delimited rest"
  shows "json_number (number_toString (Num r) @ rest) = Some (Num r, rest)"
proof -
  consider (zero) "r = 0" | (pos) "0 < r" | (neg) "r < 0" by linarith
  then show ?thesis
  proof cases
    case zero
    then show ?thesis
      using json_unsigned_zero [OF rest] by (simp add: number_toString_def json_number_def)
  next
    case pos
    note p = positive_round_trip [OF pos r rest]
    from json_unsigned_starts [OF p] delimiter_chars(7)
    have "positive_toString r @ rest \<noteq> [] \<and> hd (positive_toString r @ rest) \<noteq> CHR ''-''"
      by metis
    then show ?thesis
      using pos p by (simp add: number_toString_def json_number_def)
  next
    case neg
    then have "0 < - r" by simp
    note p = positive_round_trip [OF this is_double_minus [OF r neg] rest]
    show ?thesis
      using neg p by (simp add: number_toString_def json_number_def)
  qed
qed

lemma number_text_starts:
  assumes r: "is_double r"
  shows "number_toString (Num r) \<noteq> [] \<and>
    (isDecimalDigit (hd (number_toString (Num r))) \<or> hd (number_toString (Num r)) = CHR ''-'')"
proof -
  have d: "delimited []" by (simp add: delimited_def)
  consider (zero) "r = 0" | (pos) "0 < r" | (neg) "r < 0" by linarith
  then show ?thesis
  proof cases
    case zero
    then show ?thesis using zero_is_digit by (simp add: number_toString_def)
  next
    case pos
    from json_unsigned_starts [OF positive_round_trip [OF pos r d]]
    show ?thesis using pos by (simp add: number_toString_def)
  next
    case neg
    then show ?thesis by (simp add: number_toString_def)
  qed
qed

section \<open>JSON: a value is read back\<close>

text \<open>
  \<open>parse_value\<close> on the text of a serializable value followed by a delimiter returns the
  value and what follows it, as soon as the step count exceeds the length of the text.
  The step count that \<open>json_parse\<close> grants does.
\<close>

lemma digit_not_special:
  assumes "isDecimalDigit c"
  shows "\<not> is_json_ws c" "c \<noteq> CHR '']''" "c \<noteq> CHR ''}''" "c \<noteq> CHR ''[''" "c \<noteq> CHR ''{''"
    "c \<noteq> CHR 0x22" "c \<noteq> CHR ''t''" "c \<noteq> CHR ''f''" "c \<noteq> CHR ''n''"
  using assms
  by (auto simp: isDecimalDigit_def radixDigit_def digitVal_def is_json_ws_def Let_def
      split: if_splits)

lemma skip_ws_start: "\<not> is_json_ws c \<Longrightarrow> skip_ws (c # t) = c # t"
  by (simp add: skip_ws_def)

lemma delimiters_not_ws:
  "\<not> is_json_ws CHR '',''" "\<not> is_json_ws CHR '']''" "\<not> is_json_ws CHR ''}''"
  "\<not> is_json_ws CHR '':''" "\<not> is_json_ws CHR 0x22" "\<not> is_json_ws CHR ''[''"
  "\<not> is_json_ws CHR ''{''" "\<not> is_json_ws CHR ''-''" "\<not> is_json_ws CHR ''n''"
  "\<not> is_json_ws CHR ''t''" "\<not> is_json_ws CHR ''f''"
  by (simp_all add: is_json_ws_def)

lemma value_start:
  assumes "serializable v"
  shows "\<exists>c t. json_stringify v = c # t \<and> \<not> is_json_ws c \<and> c \<noteq> CHR '']'' \<and> c \<noteq> CHR ''}''"
proof (cases v)
  case (JNumber n)
  with assms obtain r where n: "n = Num r" and r: "is_double r"
    by (cases n) simp_all
  from number_text_starts [OF r] obtain c t where
    t: "number_toString (Num r) = c # t" and c: "isDecimalDigit c \<or> c = CHR ''-''"
    by (cases "number_toString (Num r)") auto
  from c have "\<not> is_json_ws c \<and> c \<noteq> CHR '']'' \<and> c \<noteq> CHR ''}''"
    using digit_not_special [of c] delimiters_not_ws by auto
  then show ?thesis by (simp add: JNumber n t)
qed (simp_all add: is_json_ws_def QuoteJSONString_def)

lemma parse_value_null:
  "parse_value (Suc n) (''null'' @ rest) = Some (JNull, rest)"
  by (simp add: skip_ws_def is_json_ws_def)

lemma parse_value_bool:
  "parse_value (Suc n) ((if b then ''true'' else ''false'') @ rest) = Some (JBool b, rest)"
  by (simp add: skip_ws_def is_json_ws_def)

lemma parse_value_string:
  "parse_value (Suc n) (QuoteJSONString s @ rest) = Some (JString s, rest)"
  by (simp add: quote_parse skip_ws_def is_json_ws_def parse_string_quoted)

lemma parse_value_number:
  assumes "json_number (c # t) = Some (x, rest)" and "isDecimalDigit c \<or> c = CHR ''-''"
  shows "parse_value (Suc n) (c # t) = Some (JNumber x, rest)"
proof -
  from assms(2) have c: "\<not> is_json_ws c" "c \<noteq> CHR ''[''" "c \<noteq> CHR ''{''" "c \<noteq> CHR 0x22"
    "c \<noteq> CHR ''t''" "c \<noteq> CHR ''f''" "c \<noteq> CHR ''n''"
    using digit_not_special [of c] delimiters_not_ws by auto
  have t: "take 4 (c # t) \<noteq> ''true''" "take 5 (c # t) \<noteq> ''false''" "take 4 (c # t) \<noteq> ''null''"
    using c by auto
  show ?thesis
    using assms(1) by (simp add: skip_ws_start [OF c(1)] c t del: take_Suc_Cons)
qed

lemma parse_value_empty_array:
  "parse_value (Suc n) (''[]'' @ rest) = Some (JArray [], rest)"
  by (simp add: skip_ws_def is_json_ws_def)

lemma parse_value_empty_object:
  "parse_value (Suc n) (''{}'' @ rest) = Some (JObject [], rest)"
  by (simp add: skip_ws_def is_json_ws_def)

lemma parse_value_array:
  assumes "\<not> is_json_ws c" "c \<noteq> CHR '']''"
  shows "parse_value (Suc n) (CHR ''['' # c # t) =
    map_option (\<lambda>(vs, r). (JArray vs, r)) (parse_elements n [] (c # t))"
  using assms by (simp add: skip_ws_start delimiters_not_ws)

lemma parse_value_object:
  assumes "\<not> is_json_ws c" "c \<noteq> CHR ''}''"
  shows "parse_value (Suc n) (CHR ''{'' # c # t) =
    map_option (\<lambda>(ms, r). (JObject ms, r)) (parse_members n [] (c # t))"
  using assms by (simp add: skip_ws_start delimiters_not_ws)

lemma parse_elements_more:
  "parse_value n s = Some (v, CHR '','' # r) \<Longrightarrow>
    parse_elements (Suc n) acc s = parse_elements n (acc @ [v]) r"
  by (simp add: skip_ws_start delimiters_not_ws)

lemma parse_elements_last:
  "parse_value n s = Some (v, CHR '']'' # r) \<Longrightarrow>
    parse_elements (Suc n) acc s = Some (acc @ [v], r)"
  by (simp add: skip_ws_start delimiters_not_ws)

lemma set_property_new:
  "k \<notin> set (map fst acc) \<Longrightarrow> \<not> is_array_index k \<Longrightarrow> set_property k v acc = acc @ [(k, v)]"
  by (simp add: set_property_def)

lemma parse_members_more:
  assumes "parse_value n r = Some (v, CHR '','' # r')"
    and "k \<notin> set (map fst acc)" "\<not> is_array_index k"
  shows "parse_members (Suc n) acc (QuoteJSONString k @ CHR '':'' # r) =
    parse_members n (acc @ [(k, v)]) r'"
  using assms(1)
  by (simp add: quote_parse parse_string_quoted skip_ws_start delimiters_not_ws
      set_property_new [OF assms(2,3)])

lemma parse_members_last:
  assumes "parse_value n r = Some (v, CHR ''}'' # r')"
    and "k \<notin> set (map fst acc)" "\<not> is_array_index k"
  shows "parse_members (Suc n) acc (QuoteJSONString k @ CHR '':'' # r) =
    Some (acc @ [(k, v)], r')"
  using assms(1)
  by (simp add: quote_parse parse_string_quoted skip_ws_start delimiters_not_ws
      set_property_new [OF assms(2,3)])

lemma delimited_chars:
  "delimited (CHR '','' # r)" "delimited (CHR '']'' # r)" "delimited (CHR ''}'' # r)" "delimited []"
  by (simp_all add: delimited_def)

lemma stringify_elements_cons:
  "stringify_elements (v # vs) =
    (if vs = [] then json_stringify v else json_stringify v @ CHR '','' # stringify_elements vs)"
  by (cases vs) simp_all

lemma stringify_members_cons:
  "stringify_members ((k, v) # ms) =
    (if ms = [] then QuoteJSONString k @ CHR '':'' # json_stringify v
     else QuoteJSONString k @ CHR '':'' # json_stringify v @ CHR '','' # stringify_members ms)"
  by (cases ms) simp_all

lemma elements_start:
  assumes "serializable_elements vs" "vs \<noteq> []"
  shows "\<exists>c t. stringify_elements vs = c # t \<and> \<not> is_json_ws c \<and> c \<noteq> CHR '']''"
proof -
  from assms obtain v vs' where vs: "vs = v # vs'" and v: "serializable v"
    by (cases vs) auto
  from value_start [OF v] show ?thesis
    by (auto simp: vs stringify_elements_cons)
qed

lemma members_start:
  assumes "ms \<noteq> []"
  shows "\<exists>t. stringify_members ms = CHR 0x22 # t"
proof -
  from assms obtain k v ms' where ms: "ms = (k, v) # ms'"
    by (cases ms) auto
  show ?thesis
    by (simp add: ms stringify_members_cons QuoteJSONString_def)
qed

lemma parse_stringify:
  shows "serializable v \<Longrightarrow> delimited rest \<Longrightarrow> length (json_stringify v) < n \<Longrightarrow>
      parse_value n (json_stringify v @ rest) = Some (v, rest)"
    and "serializable_elements vs \<Longrightarrow> vs \<noteq> [] \<Longrightarrow> length (stringify_elements vs) + 1 < n \<Longrightarrow>
      parse_elements n acc (stringify_elements vs @ CHR '']'' # rest) = Some (acc @ vs, rest)"
    and "serializable_members ms \<Longrightarrow> ms \<noteq> [] \<Longrightarrow> distinct (map fst (macc @ ms)) \<Longrightarrow>
      length (stringify_members ms) + 1 < n \<Longrightarrow>
      parse_members n macc (stringify_members ms @ CHR ''}'' # rest) = Some (macc @ ms, rest)"
proof (induction v and vs and ms arbitrary: n rest and n acc rest and n macc rest
    rule: serializable_serializable_elements_serializable_members.induct)
  case 1
  then obtain n' where "n = Suc n'" by (cases n) auto
  then show ?case using parse_value_null by simp
next
  case (2 b)
  then obtain n' where "n = Suc n'" by (cases n) auto
  then show ?case using parse_value_bool [of n' b rest] by simp
next
  case (3 x)
  then obtain r where x: "x = Num r" and r: "is_double r"
    by (cases x) simp_all
  from 3 obtain n' where n: "n = Suc n'" by (cases n) auto
  from number_text_starts [OF r] obtain c t where
    t: "number_toString (Num r) = c # t" and c: "isDecimalDigit c \<or> c = CHR ''-''"
    by (cases "number_toString (Num r)") auto
  from number_round_trip [OF r \<open>delimited rest\<close>]
  have "json_number (c # t @ rest) = Some (Num r, rest)" by (simp add: t)
  from parse_value_number [OF this c]
  show ?case by (simp add: x t n)
next
  case (4 s)
  then obtain n' where "n = Suc n'" by (cases n) auto
  then show ?case using parse_value_string [of n' s rest] by simp
next
  case (5 vs)
  then obtain n' where n: "n = Suc n'" by (cases n) auto
  show ?case
  proof (cases "vs = []")
    case True
    then show ?thesis using parse_value_empty_array [of n' rest] by (simp add: n)
  next
    case False
    from 5(2) have ser: "serializable_elements vs" by simp
    from elements_start [OF ser False] obtain c t where
      t: "stringify_elements vs = c # t" and c: "\<not> is_json_ws c" "c \<noteq> CHR '']''"
      by blast
    from 5(4) have len: "length (stringify_elements vs) + 1 < n'" by (simp add: n)
    have "parse_elements n' [] (stringify_elements vs @ CHR '']'' # rest) = Some ([] @ vs, rest)"
      by (rule 5(1) [OF ser False len])
    then have "parse_elements n' [] (c # t @ CHR '']'' # rest) = Some (vs, rest)"
      by (simp add: t)
    then show ?thesis
      using parse_value_array [OF c, of n' "t @ CHR '']'' # rest"] by (simp add: n t)
  qed
next
  case (6 ms)
  then obtain n' where n: "n = Suc n'" by (cases n) auto
  show ?case
  proof (cases "ms = []")
    case True
    then show ?thesis using parse_value_empty_object [of n' rest] by (simp add: n)
  next
    case False
    from 6(2) have ser: "serializable_members ms" and dist: "distinct (map fst ([] @ ms))"
      by simp_all
    from members_start [OF False] obtain t where t: "stringify_members ms = CHR 0x22 # t"
      by blast
    have c: "\<not> is_json_ws (CHR 0x22)" "CHR 0x22 \<noteq> CHR ''}''"
      by (simp_all add: is_json_ws_def)
    from 6(4) have len: "length (stringify_members ms) + 1 < n'" by (simp add: n)
    have "parse_members n' [] (stringify_members ms @ CHR ''}'' # rest) = Some ([] @ ms, rest)"
      by (rule 6(1) [OF ser False dist len])
    then have "parse_members n' [] (CHR 0x22 # t @ CHR ''}'' # rest) = Some (ms, rest)"
      by (simp add: t)
    then show ?thesis
      using parse_value_object [OF c, of n' "t @ CHR ''}'' # rest"] by (simp add: n t)
  qed
next
  case 7
  then show ?case by simp
next
  case (8 v vs)
  from 8(3) have v: "serializable v" and vs: "serializable_elements vs" by simp_all
  from 8(5) obtain n' where n: "n = Suc n'" by (cases n) auto
  show ?case
  proof (cases "vs = []")
    case True
    from 8(5) have len: "length (json_stringify v) < n'" by (simp add: n True)
    have "parse_value n' (json_stringify v @ CHR '']'' # rest) = Some (v, CHR '']'' # rest)"
      by (rule 8(1) [OF v delimited_chars(2) len])
    from parse_elements_last [OF this]
    show ?thesis by (simp add: n True)
  next
    case False
    from 8(5) have len: "length (json_stringify v) < n'"
      and len': "length (stringify_elements vs) + 1 < n'"
      by (simp_all add: n stringify_elements_cons False)
    have "parse_value n' (json_stringify v @ CHR '','' # stringify_elements vs @ CHR '']'' # rest) =
        Some (v, CHR '','' # stringify_elements vs @ CHR '']'' # rest)"
      by (rule 8(1) [OF v delimited_chars(1) len])
    from parse_elements_more [OF this]
    have "parse_elements n acc (stringify_elements (v # vs) @ CHR '']'' # rest) =
        parse_elements n' (acc @ [v]) (stringify_elements vs @ CHR '']'' # rest)"
      by (simp add: n stringify_elements_cons False)
    also have "\<dots> = Some ((acc @ [v]) @ vs, rest)"
      by (rule 8(2) [OF vs False len'])
    finally show ?thesis by simp
  qed
next
  case 9
  then show ?case by simp
next
  case (10 k v ms)
  from 10(3) have k: "\<not> is_array_index k" and v: "serializable v"
    and ms: "serializable_members ms" by simp_all
  from 10(5) have fresh: "k \<notin> set (map fst macc)"
    and dist: "distinct (map fst ((macc @ [(k, v)]) @ ms))" by auto
  from 10(6) obtain n' where n: "n = Suc n'" by (cases n) auto
  show ?case
  proof (cases "ms = []")
    case True
    from 10(6) have len: "length (json_stringify v) < n'"
      by (simp add: n True)
    have "parse_value n' (json_stringify v @ CHR ''}'' # rest) = Some (v, CHR ''}'' # rest)"
      by (rule 10(1) [OF v delimited_chars(3) len])
    from parse_members_last [OF this fresh k]
    show ?thesis by (simp add: n True)
  next
    case False
    from 10(6) have len: "length (json_stringify v) < n'"
      and len': "length (stringify_members ms) + 1 < n'"
      by (simp_all add: n stringify_members_cons False)
    have "parse_value n' (json_stringify v @ CHR '','' # stringify_members ms @ CHR ''}'' # rest) =
        Some (v, CHR '','' # stringify_members ms @ CHR ''}'' # rest)"
      by (rule 10(1) [OF v delimited_chars(1) len])
    from parse_members_more [OF this fresh k]
    have "parse_members n macc (stringify_members ((k, v) # ms) @ CHR ''}'' # rest) =
        parse_members n' (macc @ [(k, v)]) (stringify_members ms @ CHR ''}'' # rest)"
      by (simp add: n stringify_members_cons False)
    also have "\<dots> = Some ((macc @ [(k, v)]) @ ms, rest)"
      by (rule 10(2) [OF ms False dist len'])
    finally show ?thesis by simp
  qed
qed

lemma json_round_trip:
  assumes "serializable v"
  shows "json_parse (json_stringify v) = Inr v"
proof -
  have "parse_value (2 * length (json_stringify v) + 2) (json_stringify v @ []) = Some (v, [])"
    by (rule parse_stringify(1) [OF assms delimited_chars(4)]) simp
  then show ?thesis by (simp add: json_parse_def skip_ws_def)
qed

section \<open>The draft as a JSON value\<close>

text \<open>
  The text of the default draft is \<open>sample_payload\<close>; the object of a draft whose item
  fields are texts and finite numbers is serializable, and no two drafts have the same
  object.
\<close>

lemma decimal_exponent_char:
  assumes "10 powi (n - 1) \<le> x" and "x < 10 powi n" and "- 323 \<le> n" and "n \<le> int j - 323"
  shows "decimal_exponent j x = n"
  using assms
proof (induction j)
  case 0
  then show ?case by simp
next
  case (Suc j)
  show ?case
  proof (cases "10 powi (int j - 323) \<le> x")
    case True
    with Suc.prems(2) have lt: "(10::rat) powi (int j - 323) < 10 powi n" by simp
    have "int j - 323 < n"
    proof (rule ccontr)
      assume "\<not> int j - 323 < n"
      then have "n \<le> int j - 323" by simp
      then have "(10::rat) powi n \<le> 10 powi (int j - 323)"
        by (rule power_int_increasing) simp
      with lt show False by simp
    qed
    with Suc.prems(4) have "n = int j - 322" by simp
    with True show ?thesis by simp
  next
    case False
    have "n \<noteq> int j - 322"
    proof
      assume "n = int j - 322"
      then have "n - 1 = int j - 323" by simp
      with Suc.prems(1) False show False by simp
    qed
    with Suc.prems(4) have "n \<le> int j - 323" by simp
    from Suc.IH [OF Suc.prems(1,2,3) this] False show ?thesis by simp
  qed
qed

lemma shortest_digits_one: "shortest_digits 1 = (1, 1)"
proof -
  have n0: "decimal_exponent 632 1 = 1"
    by (rule decimal_exponent_char) simp_all
  have r1: "round_double 1 = Num 1" using round_double_int [of 1] by simp
  have r2: "round_double 2 = Num 2" using round_double_int [of 2] by simp
  have r10: "round_double 10 = Num 10" using round_double_int [of 10] by simp
  have a1: "accepts 1 1 (1, 1)"
    by (simp add: accepts_def candidate_value_def r1)
  have a2: "\<not> accepts 1 1 (Suc (Suc 0), 1)"
    by (simp add: accepts_def candidate_value_def r2)
  have a3: "\<not> accepts 1 1 (1, 2)"
    by (simp add: accepts_def candidate_value_def r10)
  have "best_candidate 1 1 1 = Some (1, 1)"
    using a1 a2 a3 by (simp add: best_candidate_def)
  then show ?thesis
    by (simp add: shortest_digits_def n0)
qed

lemma number_toString_one: "number_toString (Num 1) = ''1''"
  by (simp add: number_toString_def positive_toString_def shortest_digits_one format_number_def
      digits.simps digit_char_values)

lemma number_toString_zero: "number_toString (Num 0) = ''0''"
  by (simp add: number_toString_def)

lemma stringify_sample: "stringify_draft sample_draft = sample_payload"
  by (simp add: stringify_draft_def toJS_def item_toJS_def sample_draft_def defaultData_def
      PAPER_COLORS_def QuoteJSONString_def escape_char_def number_toString_one
      number_toString_zero sample_payload_def)

lemma storable_serializable: "storable f \<Longrightarrow> serializable (field_toJS f)"
  by (induction f rule: storable.induct) simp_all

lemma item_keys_not_indices:
  "\<not> is_array_index ''id''" "\<not> is_array_index ''description''"
  "\<not> is_array_index ''quantity''" "\<not> is_array_index ''price''"
  by (simp_all add: is_array_index_def isDecimalDigit_def radixDigit_def digitVal_def)

lemma draft_keys_not_indices:
  "\<not> is_array_index ''paperColor''" "\<not> is_array_index ''signature''"
  "\<not> is_array_index ''invoiceNumber''" "\<not> is_array_index ''date''"
  "\<not> is_array_index ''fromName''" "\<not> is_array_index ''fromAddress''"
  "\<not> is_array_index ''toName''" "\<not> is_array_index ''toAddress''"
  "\<not> is_array_index ''items''" "\<not> is_array_index ''note''"
  by (simp_all add: is_array_index_def isDecimalDigit_def radixDigit_def digitVal_def)

lemma item_serializable: "storable_item item \<Longrightarrow> serializable (item_toJS item)"
  by (simp add: storable_item_def item_toJS_def storable_serializable item_keys_not_indices)

lemma items_serializable:
  "list_all storable_item its \<Longrightarrow> serializable_elements (map item_toJS its)"
  by (induction its) (simp_all add: item_serializable)

lemma draft_serializable: "schema_draft data \<Longrightarrow> serializable (toJS data)"
  by (simp add: schema_draft_def toJS_def items_serializable draft_keys_not_indices
      split: option.split)

lemma draft_round_trip:
  assumes "schema_draft data"
  shows "parse_stored (stringify_draft data) = Inr (Some (toJS data))"
proof -
  have "json_parse (json_stringify (toJS data)) = Inr (toJS data)"
    by (rule json_round_trip [OF draft_serializable [OF assms]])
  moreover have "toJS data \<noteq> JNull"
    by (simp add: toJS_def)
  ultimately show ?thesis
    by (simp add: parse_stored_def stringify_draft_def)
qed


lemma field_toJS_inj: "field_toJS f = field_toJS g \<Longrightarrow> f = g"
  by (cases f; cases g) simp_all

lemma item_toJS_inj: "item_toJS a = item_toJS b \<Longrightarrow> a = b"
  by (cases a; cases b) (simp add: item_toJS_def field_toJS_inj)

lemma items_toJS_inj: "map item_toJS xs = map item_toJS ys \<Longrightarrow> xs = ys"
  by (rule map_injective) (auto simp: inj_on_def item_toJS_inj)

lemma toJS_inj: "toJS a = toJS b \<Longrightarrow> a = b"
  by (cases a; cases b) (auto simp: toJS_def items_toJS_inj split: option.splits)

lemma schema_sample: "schema_draft sample_draft"
  by (simp add: schema_draft_def sample_draft_def defaultData_def storable_item_def
      is_double_zero is_double_int [of 1, simplified])

section \<open>The draft store\<close>




lemma load_never_throws:
  "loadFromLocalStorage_try JSON_parse st = Inl e \<Longrightarrow> loadFromLocalStorage JSON_parse st = None"
  by (simp add: loadFromLocalStorage_def)






text \<open>
  The reader \<open>sample_parse\<close> gives what \<open>JSON.parse\<close> gives on the three texts it meets
  below: the text of the default draft, \<open>null\<close>, and the cut-off text.
\<close>

lemma parse_stored_sample: "parse_stored sample_payload = Inr (Some (toJS sample_draft))"
  using draft_round_trip [OF schema_sample] by (simp only: stringify_sample)

lemma sample_parse_sample: "sample_parse sample_payload = Inr (Some sample_draft)"
  by (simp add: sample_parse_def)

lemma parse_stored_null: "parse_stored ''null'' = Inr None"
  by (simp add: parse_stored_def json_parse_def skip_ws_def is_json_ws_def eval_nat_numeral)

lemma sample_parse_null: "sample_parse ''null'' = Inr None"
  by (simp add: sample_parse_def sample_payload_def)

lemma parse_stored_cut_off: \<open>parse_stored ''{"paperColor":'' = Inl SyntaxError\<close>
  by (simp add: parse_stored_def json_parse_def skip_ws_def is_json_ws_def eval_nat_numeral
      simple_escape_def cons_char_def)

lemma sample_parse_cut_off: \<open>sample_parse ''{"paperColor":'' = Inl SyntaxError\<close>
  by (simp add: sample_parse_def sample_payload_def)

text \<open>
  Claim C7. \<open>load()\<close> raises nothing: whatever its \<open>try\<close> block raises, it returns
  \<open>null\<close>. When the storage area cannot be read, holds nothing under the storage key, or
  holds a text that \<open>JSON.parse\<close> rejects, \<open>load()\<close> returns \<open>null\<close> and the mounted
  component keeps the defaults: the first palette colour, one item with an empty
  description, quantity 1 and price 0, the date part of the current instant, an empty
  note and no signature.
\<close>

theorem load_absent_gives_defaults:
  "(\<forall>e. loadFromLocalStorage_try JSON_parse st = Inl e \<longrightarrow>
      loadFromLocalStorage JSON_parse st = None) \<and>
   ((\<exists>e. getItem st STORAGE_KEY = Inl e) \<or> getItem st STORAGE_KEY = Inr None \<or>
    (\<exists>stored e. getItem st STORAGE_KEY = Inr (Some stored) \<and> JSON_parse stored = Inl e) \<longrightarrow>
      loadFromLocalStorage JSON_parse st = None \<and>
      mounted isoNow JSON_parse st = defaultData isoNow \<and>
      paperColor (mounted isoNow JSON_parse st) = snd (PAPER_COLORS ! 0) \<and>
      items (mounted isoNow JSON_parse st) =
        [\<lparr>item_id = StringValue ''1'', description = StringValue [],
          quantity = NumberValue (Num 1), price = NumberValue (Num 0)\<rparr>] \<and>
      date (mounted isoNow JSON_parse st) = takeWhile (\<lambda>c. c \<noteq> CHR ''T'') isoNow \<and>
      (\<forall>day rest. isoNow = day @ CHR ''T'' # rest \<and> CHR ''T'' \<notin> set day \<longrightarrow>
         date (mounted isoNow JSON_parse st) = day) \<and>
      noteText (mounted isoNow JSON_parse st) = [] \<and>
      signature (mounted isoNow JSON_parse st) = None)"
proof (intro conjI impI allI)
  fix e
  assume "loadFromLocalStorage_try JSON_parse st = Inl e"
  then show "loadFromLocalStorage JSON_parse st = None"
    by (rule load_never_throws)
next
  assume absent:
    "(\<exists>e. getItem st STORAGE_KEY = Inl e) \<or> getItem st STORAGE_KEY = Inr None \<or>
     (\<exists>stored e. getItem st STORAGE_KEY = Inr (Some stored) \<and> JSON_parse stored = Inl e)"
  then show none: "loadFromLocalStorage JSON_parse st = None"
    by (auto simp: loadFromLocalStorage_def loadFromLocalStorage_try_def)
  then show m: "mounted isoNow JSON_parse st = defaultData isoNow"
    by (simp add: mounted_def mountEffect_def)
  show "paperColor (mounted isoNow JSON_parse st) = snd (PAPER_COLORS ! 0)"
    by (simp add: m defaultData_def PAPER_COLORS_def)
  show "items (mounted isoNow JSON_parse st) =
      [\<lparr>item_id = StringValue ''1'', description = StringValue [],
        quantity = NumberValue (Num 1), price = NumberValue (Num 0)\<rparr>]"
    by (simp add: m defaultData_def)
  show "date (mounted isoNow JSON_parse st) = takeWhile (\<lambda>c. c \<noteq> CHR ''T'') isoNow"
    by (simp add: m defaultData_def)
  show "noteText (mounted isoNow JSON_parse st) = []"
    by (simp add: m defaultData_def)
  show "signature (mounted isoNow JSON_parse st) = None"
    by (simp add: m defaultData_def)
  fix day rest
  assume "isoNow = day @ CHR ''T'' # rest \<and> CHR ''T'' \<notin> set day"
  then have "date (defaultData isoNow) = day"
    by (auto simp: defaultData_def takeWhile_tail)
  then show "date (mounted isoNow JSON_parse st) = day"
    by (simp only: m)
qed

theorem load_absent_gives_defaults_witness:
  "getItem denied_storage STORAGE_KEY = Inl SecurityError \<and>
   loadFromLocalStorage sample_parse denied_storage = None \<and>
   mounted ''2026-11-03T09:30:00.000Z'' sample_parse denied_storage = sample_draft \<and>
   getItem roomy_storage STORAGE_KEY = Inr None \<and>
   loadFromLocalStorage sample_parse roomy_storage = None \<and>
   mounted ''2026-11-03T09:30:00.000Z'' sample_parse roomy_storage = sample_draft \<and>
   getItem corrupt_storage STORAGE_KEY = Inr (Some (snd (hd (entries corrupt_storage)))) \<and>
   sample_parse (snd (hd (entries corrupt_storage))) = Inl SyntaxError \<and>
   loadFromLocalStorage sample_parse corrupt_storage = None \<and>
   mounted ''2026-11-03T09:30:00.000Z'' sample_parse corrupt_storage = sample_draft \<and>
   date (mounted ''2026-11-03T09:30:00.000Z'' sample_parse corrupt_storage) = ''2026-11-03''"
proof -
  have g1: "getItem denied_storage STORAGE_KEY = Inl SecurityError"
    by (simp add: getItem_def denied_storage_def)
  have g2: "getItem roomy_storage STORAGE_KEY = Inr None"
    by (simp add: getItem_def roomy_storage_def)
  have g3: "getItem corrupt_storage STORAGE_KEY = Inr (Some (snd (hd (entries corrupt_storage))))"
    by (simp add: getItem_def corrupt_storage_def)
  have p3: "sample_parse (snd (hd (entries corrupt_storage))) = Inl SyntaxError"
    by (simp add: sample_parse_def corrupt_storage_def sample_payload_def)
  have d: "takeWhile (\<lambda>c. c \<noteq> CHR ''T'') ''2026-11-03T09:30:00.000Z'' = ''2026-11-03''"
    by simp
  note r1 = load_absent_gives_defaults
    [of sample_parse denied_storage "''2026-11-03T09:30:00.000Z''"]
  note r2 = load_absent_gives_defaults
    [of sample_parse roomy_storage "''2026-11-03T09:30:00.000Z''"]
  note r3 = load_absent_gives_defaults
    [of sample_parse corrupt_storage "''2026-11-03T09:30:00.000Z''"]
  from r1 g1 have
    "loadFromLocalStorage sample_parse denied_storage = None \<and>
     mounted ''2026-11-03T09:30:00.000Z'' sample_parse denied_storage = sample_draft"
    unfolding sample_draft_def by blast
  moreover from r2 g2 have
    "loadFromLocalStorage sample_parse roomy_storage = None \<and>
     mounted ''2026-11-03T09:30:00.000Z'' sample_parse roomy_storage = sample_draft"
    unfolding sample_draft_def by blast
  moreover from r3 g3 p3 have
    "loadFromLocalStorage sample_parse corrupt_storage = None \<and>
     mounted ''2026-11-03T09:30:00.000Z'' sample_parse corrupt_storage = sample_draft \<and>
     date (mounted ''2026-11-03T09:30:00.000Z'' sample_parse corrupt_storage) = ''2026-11-03''"
    unfolding sample_draft_def d by blast
  ultimately show ?thesis
    using g1 g2 g3 p3 by blast
qed

end
